theory Spec2Isabelle
  imports Main "HOL-Library.Word" "HOL-Library.Monad_Syntax"
begin

section \<open>CompareSequences.c: machine types and memory\<close>

text \<open>
  The C \<^verbatim>\<open>int\<close> is a 32-bit word: \<open>+\<close> and \<open>*\<close> wrap around, comparisons are signed
  (\<open><s\<close>), and \<open>sint\<close> reads the value.  A \<^verbatim>\<open>size_t\<close> is a natural number below
  \<open>2 ^ 64\<close>, with the wrap-around of \<^verbatim>\<open>+\<close> and of \<^verbatim>\<open>- 1\<close> written out.
\<close>

type_synonym cint = "32 word"

definition size_add :: "nat \<Rightarrow> nat \<Rightarrow> nat" where
  "size_add a b = (a + b) mod 2 ^ 64"

definition size_dec :: "nat \<Rightarrow> nat" where
  "size_dec a = (if a = 0 then 2 ^ 64 - 1 else a - 1)"

text \<open>
  A \<^verbatim>\<open>char *\<close> is \<open>None\<close> for \<^verbatim>\<open>NULL\<close> and otherwise the string it points to, without
  its terminator.  Reading index \<open>k\<close> yields the character, the terminator at
  \<open>k = length s\<close>, and is an error (\<open>None\<close>) beyond it or through \<^verbatim>\<open>NULL\<close>.
  The sizes of the blocks that hold strings are not part of the model.
\<close>

definition charAt :: "string option \<Rightarrow> nat \<Rightarrow> char option" where
  "charAt p k =
     (case p of
        None \<Rightarrow> None
      | Some s \<Rightarrow> if k < length s then Some (s ! k)
                  else if k = length s then Some (CHR 0x00) else None)"

text \<open>The C string held by a sequence of bytes: everything before the first zero byte.\<close>

definition cstring :: "char list \<Rightarrow> string" where
  "cstring bytes = takeWhile (\<lambda>c. c \<noteq> CHR 0x00) bytes"

definition strlen :: "string \<Rightarrow> nat" where
  "strlen s = length s"

text \<open>\<^verbatim>\<open>strcpy(dest + k, src)\<close>: the string at \<open>dest\<close> afterwards.\<close>

definition strcpy_at :: "string \<Rightarrow> nat \<Rightarrow> string \<Rightarrow> string" where
  "strcpy_at dest k src = take k dest @ src"

definition SPACE_CHAR :: char where
  "SPACE_CHAR = CHR ''-''"

definition strcat :: "string \<Rightarrow> string \<Rightarrow> string" where
  "strcat dest src = dest @ src"

section \<open>Part 1: Sequence\<close>

record Sequence =
  seqName :: "string option"
  seqVal :: "string option"
  seqLen :: nat
  nextSeq :: "nat option"

text \<open>
  \<^verbatim>\<open>initializeSeq\<close> assigns \<^verbatim>\<open>seqName\<close>, \<^verbatim>\<open>seqVal\<close> (twice) and \<^verbatim>\<open>next\<close>, and never
  \<^verbatim>\<open>seqLen\<close>: that field keeps what \<^verbatim>\<open>malloc\<close> left in the block, the parameter
  \<open>uninitSeqLen\<close>.
\<close>

definition initializeSeq :: "nat \<Rightarrow> Sequence" where
  "initializeSeq uninitSeqLen =
     \<lparr>seqName = None, seqVal = None, seqLen = uninitSeqLen, nextSeq = None\<rparr>"

definition setSeqName :: "Sequence \<Rightarrow> string \<Rightarrow> Sequence" where
  "setSeqName seq name = seq\<lparr>seqName := Some name\<rparr>"

definition setSeqLen :: "Sequence \<Rightarrow> nat \<Rightarrow> Sequence" where
  "setSeqLen seq len = seq\<lparr>seqLen := size_add (seqLen seq) len\<rparr>"

definition setSeqVal :: "Sequence \<Rightarrow> string \<Rightarrow> Sequence" where
  "setSeqVal seq val =
     (case seqVal seq of
        None \<Rightarrow> setSeqLen (seq\<lparr>seqVal := Some (strcpy_at [] 0 val)\<rparr>) (strlen val)
      | Some old \<Rightarrow>
          setSeqLen (seq\<lparr>seqVal := Some (strcpy_at old (strlen old) val)\<rparr>) (strlen val))"

definition setSeqNext :: "Sequence option \<Rightarrow> nat option \<Rightarrow> Sequence option" where
  "setSeqNext seq nxt = (case seq of None \<Rightarrow> None | Some q \<Rightarrow> Some (q\<lparr>nextSeq := nxt\<rparr>))"

definition getSeqName :: "Sequence \<Rightarrow> string option" where
  "getSeqName seq = seqName seq"

definition getSeqVal :: "Sequence \<Rightarrow> string option" where
  "getSeqVal seq = seqVal seq"

definition getSeqLen :: "Sequence \<Rightarrow> nat" where
  "getSeqLen seq = seqLen seq"

definition getSeqNext :: "Sequence \<Rightarrow> nat option" where
  "getSeqNext seq = nextSeq seq"

section \<open>Part 2: Cell and the score table\<close>

text \<open>
  A \<^verbatim>\<open>Cell *\<close> is \<open>None\<close> for \<^verbatim>\<open>NULL\<close> and otherwise the row and column of the cell it
  points to.  The table is a store from the allocated positions to cells: a position
  outside it has no cell, and an access there is an error (\<open>None\<close>).
\<close>

record Cell =
  sourceCell :: "(nat \<times> nat) option"
  sourceChar :: char
  score :: cint

type_synonym Table = "nat \<times> nat \<rightharpoonup> Cell"

text \<open>
  What \<^verbatim>\<open>malloc\<close> left in the blocks that the program reads, or may read, before it
  writes them: the cells of the fresh table, and, for the pass of the backtrace with
  the given \<^verbatim>\<open>idx\<close>, the C strings found in the fresh buffers \<^verbatim>\<open>seq1Final\<close> and
  \<^verbatim>\<open>seq2Final\<close> (the bytes before their first zero byte).  Failure of \<^verbatim>\<open>malloc\<close> is not
  modelled.
\<close>

record Uninit =
  uninitCell :: "nat \<times> nat \<Rightarrow> Cell"
  uninitSeq1Final :: "nat \<Rightarrow> string"
  uninitSeq2Final :: "nat \<Rightarrow> string"

definition initializeCell ::
  "Table \<Rightarrow> nat \<times> nat \<Rightarrow> (nat \<times> nat) option \<Rightarrow> char \<Rightarrow> cint \<Rightarrow> Table option" where
  "initializeCell table cell src srcChar sc =
     (if table cell = None then None
      else Some (table(cell \<mapsto> \<lparr>sourceCell = src, sourceChar = srcChar, score = sc\<rparr>)))"

definition getScore :: "Cell \<Rightarrow> cint" where
  "getScore cell = score cell"

definition getSourceChar :: "Cell \<Rightarrow> char" where
  "getSourceChar cell = sourceChar cell"

definition getSource :: "Cell \<Rightarrow> (nat \<times> nat) option" where
  "getSource cell = sourceCell cell"

definition calByAbove :: "Table \<Rightarrow> nat \<Rightarrow> nat \<Rightarrow> cint \<Rightarrow> cint option" where
  "calByAbove table row col g =
     do { cell \<leftarrow> table (size_dec row, col); Some (getScore cell + g) }"

definition calByLeft :: "Table \<Rightarrow> nat \<Rightarrow> nat \<Rightarrow> cint \<Rightarrow> cint option" where
  "calByLeft table row col g =
     do { cell \<leftarrow> table (row, size_dec col); Some (getScore cell + g) }"

definition calByDiagonal ::
  "Table \<Rightarrow> nat \<Rightarrow> nat \<Rightarrow> string option \<Rightarrow> string option \<Rightarrow> cint \<Rightarrow> cint \<Rightarrow> cint option" where
  "calByDiagonal table row col seq1Val seq2Val m s =
     do {
       a \<leftarrow> charAt seq1Val (size_dec row);
       b \<leftarrow> charAt seq2Val (size_dec col);
       cell \<leftarrow> table (size_dec row, size_dec col);
       if a = b then Some (getScore cell + m) else Some (getScore cell + s)
     }"

definition MAX_macro :: "cint \<Rightarrow> cint \<Rightarrow> cint" where
  "MAX_macro X Y = (if Y <s X then X else Y)"

definition TERNARY_MAX :: "cint \<Rightarrow> cint \<Rightarrow> cint \<Rightarrow> cint" where
  "TERNARY_MAX X Y Z = MAX_macro (MAX_macro X Y) Z"

definition setCell ::
  "Table \<Rightarrow> nat \<Rightarrow> nat \<Rightarrow> string option \<Rightarrow> string option \<Rightarrow> cint \<Rightarrow> cint \<Rightarrow> cint
     \<Rightarrow> Table option" where
  "setCell table row col seq1Val seq2Val m s g =
     do {
       leftScore \<leftarrow> calByLeft table row col g;
       aboveScore \<leftarrow> calByAbove table row col g;
       diagonalScore \<leftarrow> calByDiagonal table row col seq1Val seq2Val m s;
       let maxScore = TERNARY_MAX leftScore aboveScore diagonalScore;
       let (src, srcChar) =
         (if maxScore = diagonalScore then (Some (size_dec row, size_dec col), CHR ''D'')
          else if maxScore = leftScore then (Some (row, size_dec col), CHR ''L'')
          else if maxScore = aboveScore then (Some (size_dec row, col), CHR ''A'')
          else (None, CHR 0x00));
       initializeCell table (row, col) src srcChar maxScore
     }"

definition createTable :: "Uninit \<Rightarrow> nat \<Rightarrow> nat \<Rightarrow> Table" where
  "createTable U rows cols =
     (\<lambda>(r, c). if r < rows \<and> c < cols then Some (uninitCell U (r, c)) else None)"

text \<open>A \<^verbatim>\<open>for (k = 1; k < n; ++k)\<close> loop runs its body over \<open>[1..<n]\<close>, threading the table.\<close>

primrec for_loop :: "nat list \<Rightarrow> (nat \<Rightarrow> 's \<Rightarrow> 's option) \<Rightarrow> 's \<Rightarrow> 's option" where
  "for_loop [] body s = Some s"
| "for_loop (k # ks) body s = body k s \<bind> for_loop ks body"

definition initializeTable :: "Table \<Rightarrow> nat \<Rightarrow> nat \<Rightarrow> cint \<Rightarrow> Table option" where
  "initializeTable table rows cols g =
     do {
       t0 \<leftarrow> initializeCell table (0, 0) None (CHR 0x00) 0;
       t1 \<leftarrow> for_loop [1..<rows]
               (\<lambda>r t. initializeCell t (r, 0) None (CHR 0x00) (of_nat r * g)) t0;
       for_loop [1..<cols]
               (\<lambda>c t. initializeCell t (0, c) None (CHR 0x00) (of_nat c * g)) t1
     }"

definition fillTable ::
  "Table \<Rightarrow> Sequence \<Rightarrow> Sequence \<Rightarrow> cint \<Rightarrow> cint \<Rightarrow> cint \<Rightarrow> Table option" where
  "fillTable table seq1 seq2 m s g =
     (let rows = size_add (getSeqLen seq1) 1;
          cols = size_add (getSeqLen seq2) 1;
          seq1Val = getSeqVal seq1;
          seq2Val = getSeqVal seq2
      in do {
        t \<leftarrow> initializeTable table rows cols g;
        for_loop [1..<rows]
          (\<lambda>r. for_loop [1..<cols] (\<lambda>c t'. setCell t' r c seq1Val seq2Val m s g)) t
      })"

section \<open>Part 2: the backtrace\<close>

text \<open>
  \<^verbatim>\<open>analyzeSourceChar\<close> writes into the two fresh buffers and moves \<open>i\<close> and \<open>j\<close>.
  The model takes what the buffers hold on entry and returns what they hold on exit:
  for a tag other than \<^verbatim>\<open>'D'\<close>, \<^verbatim>\<open>'L'\<close> and \<^verbatim>\<open>'A'\<close> nothing is written.
\<close>

definition analyzeSourceChar ::
  "char \<Rightarrow> string \<Rightarrow> string \<Rightarrow> string option \<Rightarrow> string option \<Rightarrow> nat \<Rightarrow> nat
     \<Rightarrow> (string \<times> string \<times> nat \<times> nat) option" where
  "analyzeSourceChar srcChar seq1Final seq2Final seq1Val seq2Val i j =
     (if srcChar = CHR ''D'' then
        do {
          a \<leftarrow> charAt seq1Val i;
          b \<leftarrow> charAt seq2Val j;
          Some (cstring [a, CHR 0x00], cstring [b, CHR 0x00], size_dec i, size_dec j)
        }
      else if srcChar = CHR ''L'' then
        do {
          b \<leftarrow> charAt seq2Val j;
          Some (cstring [SPACE_CHAR, CHR 0x00], cstring [b, CHR 0x00], i, size_dec j)
        }
      else if srcChar = CHR ''A'' then
        do {
          a \<leftarrow> charAt seq1Val i;
          Some (cstring [a, CHR 0x00], cstring [SPACE_CHAR, CHR 0x00], size_dec i, j)
        }
      else Some (seq1Final, seq2Final, i, j))"

definition createAlignment :: "nat \<Rightarrow> string \<Rightarrow> string \<Rightarrow> string" where
  "createAlignment paramLen seq1Aligned seq2Aligned =
     strcat (strcat (strcat seq1Aligned [CHR 0x0A]) seq2Aligned) [CHR 0x0A]"

record Walk =
  currCell :: "(nat \<times> nat) option"
  i :: nat
  j :: nat
  seq1Add :: string
  seq2Add :: string
  idx :: nat

text \<open>
  One pass of the body of the \<^verbatim>\<open>while (currCell != NULL)\<close> loop of \<^verbatim>\<open>calAlignment\<close>.
  The counter \<^verbatim>\<open>idx\<close> only sizes the buffers and stays far below \<open>2 ^ 64\<close>.
\<close>

definition calAlignment_body ::
  "Uninit \<Rightarrow> Table \<Rightarrow> string option \<Rightarrow> string option \<Rightarrow> Walk \<Rightarrow> Walk option" where
  "calAlignment_body U table seq1Val seq2Val w =
     do {
       p \<leftarrow> currCell w;
       cell \<leftarrow> table p;
       (seq1Final, seq2Final, i', j') \<leftarrow>
          analyzeSourceChar (getSourceChar cell)
            (uninitSeq1Final U (idx w)) (uninitSeq2Final U (idx w))
            seq1Val seq2Val (i w) (j w);
       Some \<lparr>currCell = getSource cell, i = i', j = j',
             seq1Add = strcat seq1Final (seq1Add w),
             seq2Add = strcat seq2Final (seq2Add w),
             idx = idx w + 1\<rparr>
     }"

partial_function (option) calAlignment_loop ::
  "Uninit \<Rightarrow> Table \<Rightarrow> string option \<Rightarrow> string option \<Rightarrow> Walk \<Rightarrow> Walk option" where
  "calAlignment_loop U table seq1Val seq2Val w =
     (if currCell w = None then Some w
      else calAlignment_body U table seq1Val seq2Val w
             \<bind> calAlignment_loop U table seq1Val seq2Val)"

declare calAlignment_loop.simps [code]

definition calAlignment ::
  "Uninit \<Rightarrow> Sequence \<Rightarrow> Sequence \<Rightarrow> Table \<Rightarrow> nat \<Rightarrow> nat \<Rightarrow> string option" where
  "calAlignment U seq1 seq2 table rows cols =
     do {
       w \<leftarrow> calAlignment_loop U table (getSeqVal seq1) (getSeqVal seq2)
              \<lparr>currCell = Some (size_dec rows, size_dec cols),
               i = size_dec (getSeqLen seq1), j = size_dec (getSeqLen seq2),
               seq1Add = [], seq2Add = [], idx = 1\<rparr>;
       Some (createAlignment (idx w) (seq1Add w) (seq2Add w))
     }"

text \<open>
  \<^verbatim>\<open>compareSequences\<close> prints the score and returns the alignment; the model returns
  the score it passes to \<^verbatim>\<open>printScore\<close> together with the alignment.
\<close>

definition compareSequences ::
  "Uninit \<Rightarrow> Sequence \<Rightarrow> Sequence \<Rightarrow> cint \<Rightarrow> cint \<Rightarrow> cint \<Rightarrow> (cint \<times> string) option" where
  "compareSequences U seq1 seq2 m s g =
     (let rows = size_add (getSeqLen seq1) 1;
          cols = size_add (getSeqLen seq2) 1
      in do {
        table \<leftarrow> fillTable (createTable U rows cols) seq1 seq2 m s g;
        cell \<leftarrow> table (size_dec rows, size_dec cols);
        alignment \<leftarrow> calAlignment U seq1 seq2 table rows cols;
        Some (getScore cell, alignment)
      })"

section \<open>The contents of the filled table\<close>

text \<open>
  The recurrence that the loops of \<^verbatim>\<open>initializeTable\<close> and \<^verbatim>\<open>fillTable\<close> realise, as a
  function of the row and the column, in the arithmetic of \<^verbatim>\<open>int\<close>; \<open>tableCell\<close> adds the
  source and the tag.  That \<^verbatim>\<open>fillTable\<close> leaves exactly these cells is lemma
  \<open>fillTable_filledTable\<close> below.
\<close>

fun tableScore :: "string \<Rightarrow> string \<Rightarrow> cint \<Rightarrow> cint \<Rightarrow> cint \<Rightarrow> nat \<Rightarrow> nat \<Rightarrow> cint" where
  "tableScore A B m s g 0 c = of_nat c * g"
| "tableScore A B m s g (Suc r) 0 = of_nat (Suc r) * g"
| "tableScore A B m s g (Suc r) (Suc c) =
     TERNARY_MAX (tableScore A B m s g (Suc r) c + g)
                 (tableScore A B m s g r (Suc c) + g)
                 (tableScore A B m s g r c + (if A ! r = B ! c then m else s))"

definition tableCell :: "string \<Rightarrow> string \<Rightarrow> cint \<Rightarrow> cint \<Rightarrow> cint \<Rightarrow> nat \<Rightarrow> nat \<Rightarrow> Cell" where
  "tableCell A B m s g r c =
     (if r = 0 \<or> c = 0
      then \<lparr>sourceCell = None, sourceChar = CHR 0x00, score = tableScore A B m s g r c\<rparr>
      else
        let fromLeft = tableScore A B m s g r (c - 1) + g;
            fromAbove = tableScore A B m s g (r - 1) c + g;
            diagonal = tableScore A B m s g (r - 1) (c - 1)
                         + (if A ! (r - 1) = B ! (c - 1) then m else s);
            maxScore = TERNARY_MAX fromLeft fromAbove diagonal
        in if maxScore = diagonal
           then \<lparr>sourceCell = Some (r - 1, c - 1), sourceChar = CHR ''D'', score = maxScore\<rparr>
           else if maxScore = fromLeft
           then \<lparr>sourceCell = Some (r, c - 1), sourceChar = CHR ''L'', score = maxScore\<rparr>
           else \<lparr>sourceCell = Some (r - 1, c), sourceChar = CHR ''A'', score = maxScore\<rparr>)"

text \<open>
  A table of the given size in which the positions selected by \<open>written\<close> hold the
  cells above and the others still hold what \<^verbatim>\<open>malloc\<close> left.
\<close>

definition partTable ::
  "Uninit \<Rightarrow> string \<Rightarrow> string \<Rightarrow> cint \<Rightarrow> cint \<Rightarrow> cint \<Rightarrow> nat \<Rightarrow> nat
     \<Rightarrow> (nat \<Rightarrow> nat \<Rightarrow> bool) \<Rightarrow> Table" where
  "partTable U A B m s g rows cols written =
     (\<lambda>(r, c). if r < rows \<and> c < cols
               then Some (if written r c then tableCell A B m s g r c else uninitCell U (r, c))
               else None)"

definition filledTable :: "string \<Rightarrow> string \<Rightarrow> cint \<Rightarrow> cint \<Rightarrow> cint \<Rightarrow> Table" where
  "filledTable A B m s g =
     (\<lambda>(r, c). if r < length A + 1 \<and> c < length B + 1
               then Some (tableCell A B m s g r c) else None)"

section \<open>Global alignments and their scores\<close>

text \<open>
  A global alignment of \<open>A\<close> and \<open>B\<close> is a list of columns, each holding a symbol of
  \<open>A\<close> or a gap over a symbol of \<open>B\<close> or a gap, never two gaps, whose first row
  without its gaps is \<open>A\<close> and whose second row without its gaps is \<open>B\<close>.  A column
  of two equal symbols contributes the match parameter, one of two different symbols
  the mismatch parameter, one with a gap the gap parameter; the score of an alignment
  is the sum over its columns, and the optimal score is the maximum over all global
  alignments.  Scores are mathematical integers here.
\<close>

type_synonym column = "char option \<times> char option"

primrec ungap :: "char option list \<Rightarrow> string" where
  "ungap [] = []"
| "ungap (x # xs) = (case x of None \<Rightarrow> ungap xs | Some ch \<Rightarrow> ch # ungap xs)"

definition globalAlignments :: "string \<Rightarrow> string \<Rightarrow> column list set" where
  "globalAlignments A B =
     {al. ungap (map fst al) = A \<and> ungap (map snd al) = B \<and> (None, None) \<notin> set al}"

fun columnScore :: "int \<Rightarrow> int \<Rightarrow> int \<Rightarrow> column \<Rightarrow> int" where
  "columnScore M S G (Some a, Some b) = (if a = b then M else S)"
| "columnScore M S G (Some a, None) = G"
| "columnScore M S G (None, Some b) = G"
| "columnScore M S G (None, None) = 0"

definition alignmentScore :: "int \<Rightarrow> int \<Rightarrow> int \<Rightarrow> column list \<Rightarrow> int" where
  "alignmentScore M S G al = sum_list (map (columnScore M S G) al)"

definition optimalScore :: "int \<Rightarrow> int \<Rightarrow> int \<Rightarrow> string \<Rightarrow> string \<Rightarrow> int" where
  "optimalScore M S G A B = Max (alignmentScore M S G ` globalAlignments A B)"

text \<open>The two rows of an alignment as strings, a gap written as \<^verbatim>\<open>SPACE_CHAR\<close>.\<close>

fun render :: "char option \<Rightarrow> char" where
  "render None = SPACE_CHAR"
| "render (Some ch) = ch"

definition firstRow :: "column list \<Rightarrow> string" where
  "firstRow al = map (render \<circ> fst) al"

definition secondRow :: "column list \<Rightarrow> string" where
  "secondRow al = map (render \<circ> snd) al"

text \<open>The same recurrence as \<open>tableScore\<close>, on mathematical integers.\<close>

fun nwScore :: "int \<Rightarrow> int \<Rightarrow> int \<Rightarrow> string \<Rightarrow> string \<Rightarrow> nat \<Rightarrow> nat \<Rightarrow> int" where
  "nwScore M S G A B 0 c = int c * G"
| "nwScore M S G A B (Suc r) 0 = int (Suc r) * G"
| "nwScore M S G A B (Suc r) (Suc c) =
     max (max (nwScore M S G A B (Suc r) c + G) (nwScore M S G A B r (Suc c) + G))
         (nwScore M S G A B r c + (if A ! r = B ! c then M else S))"

text \<open>
  No overflow: every product and every sum that \<^verbatim>\<open>initializeTable\<close> and \<^verbatim>\<open>setCell\<close> form
  for the cells of the table, taken on mathematical integers, lies in the range of
  \<^verbatim>\<open>int\<close>.
\<close>

definition inRange :: "int \<Rightarrow> bool" where
  "inRange k \<longleftrightarrow> - (2 ^ 31) \<le> k \<and> k < 2 ^ 31"

definition cellInRange :: "int \<Rightarrow> int \<Rightarrow> int \<Rightarrow> string \<Rightarrow> string \<Rightarrow> nat \<Rightarrow> nat \<Rightarrow> bool" where
  "cellInRange M S G A B r c \<longleftrightarrow>
     (if r = 0 then inRange (int c * G)
      else if c = 0 then inRange (int r * G)
      else inRange (nwScore M S G A B r (c - 1) + G) \<and>
           inRange (nwScore M S G A B (r - 1) c + G) \<and>
           inRange (nwScore M S G A B (r - 1) (c - 1)
                      + (if A ! (r - 1) = B ! (c - 1) then M else S)))"

definition noOverflow :: "int \<Rightarrow> int \<Rightarrow> int \<Rightarrow> string \<Rightarrow> string \<Rightarrow> bool" where
  "noOverflow M S G A B \<longleftrightarrow>
     (\<forall>r \<in> {..length A}. \<forall>c \<in> {..length B}. cellInRange M S G A B r c)"

section \<open>Fixtures\<close>

text \<open>
  The sequence \<^verbatim>\<open>parseSeqFile\<close> builds for a record with one header line and one value
  line, in a block whose \<^verbatim>\<open>seqLen\<close> bytes held \<open>uninitSeqLen\<close>.
\<close>

definition readSequence :: "nat \<Rightarrow> string \<Rightarrow> string \<Rightarrow> Sequence" where
  "readSequence uninitSeqLen name val =
     setSeqVal (setSeqName (initializeSeq uninitSeqLen) name) val"

text \<open>Memory in which every block \<^verbatim>\<open>malloc\<close> returns is filled with zero bytes.\<close>

definition zeroed :: Uninit where
  "zeroed =
     \<lparr>uninitCell = (\<lambda>_. \<lparr>sourceCell = None, sourceChar = CHR 0x00, score = 0\<rparr>),
      uninitSeq1Final = (\<lambda>_. []), uninitSeq2Final = (\<lambda>_. [])\<rparr>"

text \<open>A sequence as the alignment expects it: a value, and its length in \<^verbatim>\<open>seqLen\<close>.\<close>

definition holds :: "Sequence \<Rightarrow> string \<Rightarrow> bool" where
  "holds seq A \<longleftrightarrow> getSeqVal seq = Some A \<and> getSeqLen seq = length A \<and> length A + 1 < 2 ^ 64"

section \<open>Evaluation\<close>

lemmas sequence_defs =
  readSequence_def initializeSeq_def setSeqName_def setSeqVal_def setSeqLen_def
  getSeqLen_def getSeqVal_def getSeqName_def strlen_def strcpy_at_def size_add_def

lemmas table_defs =
  fillTable_def initializeTable_def createTable_def setCell_def calByLeft_def
  calByAbove_def calByDiagonal_def initializeCell_def getScore_def getSource_def
  getSourceChar_def size_dec_def charAt_def MAX_macro_def TERNARY_MAX_def word_sless_alt

lemmas backtrace_defs =
  compareSequences_def calAlignment_def calAlignment_body_def analyzeSourceChar_def
  createAlignment_def cstring_def strcat_def SPACE_CHAR_def calAlignment_loop.simps

section \<open>Sequences\<close>

lemma readSequence_seqLen:
  "getSeqLen (readSequence uninitSeqLen name val) = (uninitSeqLen + length val) mod 2 ^ 64"
  by (simp add: sequence_defs)

lemma readSequence_seqVal: "getSeqVal (readSequence uninitSeqLen name val) = Some val"
  by (simp add: sequence_defs)

lemma readSequence_holds:
  "length val + 1 < 2 ^ 64 \<Longrightarrow> holds (readSequence 0 name val) val"
  by (simp add: holds_def readSequence_seqLen readSequence_seqVal)

section \<open>The cell-setting operation\<close>

lemma MAX_macro_cases: "MAX_macro X Y = X \<or> MAX_macro X Y = Y"
  by (simp add: MAX_macro_def)

lemma TERNARY_MAX_cases:
  "TERNARY_MAX X Y Z = X \<or> TERNARY_MAX X Y Z = Y \<or> TERNARY_MAX X Y Z = Z"
  using MAX_macro_cases [of X Y] MAX_macro_cases [of "MAX_macro X Y" Z]
  by (auto simp: TERNARY_MAX_def)

lemma sint_MAX_macro: "sint (MAX_macro X Y) = max (sint X) (sint Y)"
  by (simp add: MAX_macro_def word_sless_alt max_def)

lemma sint_TERNARY_MAX: "sint (TERNARY_MAX X Y Z) = max (max (sint X) (sint Y)) (sint Z)"
  by (simp add: TERNARY_MAX_def sint_MAX_macro)

lemma setCell_interior:
  assumes "1 \<le> row" and "1 \<le> col"
    and "table (row - 1, col - 1) = Some cd"
    and "table (row, col - 1) = Some cl"
    and "table (row - 1, col) = Some ca"
    and "table (row, col) \<noteq> None"
    and "charAt seq1Val (row - 1) = Some a"
    and "charAt seq2Val (col - 1) = Some b"
    and "leftScore = getScore cl + g"
    and "aboveScore = getScore ca + g"
    and "diagonalScore = getScore cd + (if a = b then m else s)"
    and "maxScore = TERNARY_MAX leftScore aboveScore diagonalScore"
  shows "setCell table row col seq1Val seq2Val m s g =
           Some (table((row, col) \<mapsto>
             (if maxScore = diagonalScore
              then \<lparr>sourceCell = Some (row - 1, col - 1), sourceChar = CHR ''D'', score = maxScore\<rparr>
              else if maxScore = leftScore
              then \<lparr>sourceCell = Some (row, col - 1), sourceChar = CHR ''L'', score = maxScore\<rparr>
              else \<lparr>sourceCell = Some (row - 1, col), sourceChar = CHR ''A'', score = maxScore\<rparr>)))"
proof -
  have dec: "size_dec row = row - 1" "size_dec col = col - 1"
    using assms(1,2) by (simp_all add: size_dec_def)
  have l: "calByLeft table row col g = Some leftScore"
    using assms by (simp add: calByLeft_def dec)
  have a: "calByAbove table row col g = Some aboveScore"
    using assms by (simp add: calByAbove_def dec)
  have d: "calByDiagonal table row col seq1Val seq2Val m s = Some diagonalScore"
    using assms by (simp add: calByDiagonal_def dec)
  have "maxScore = leftScore \<or> maxScore = aboveScore \<or> maxScore = diagonalScore"
    using TERNARY_MAX_cases [of leftScore aboveScore diagonalScore] assms(12) by simp
  then show ?thesis
    using assms(6) assms(12)
    by (auto simp: setCell_def l a d dec initializeCell_def)
qed

text \<open>
  C5.  For an interior cell (row and column at least 1, the three neighbours and the
  two characters readable), \<^verbatim>\<open>setCell\<close> writes the maximum of the three candidates, as
  signed integers, as the score, and records the origin by this rule: if that maximum
  equals the diagonal candidate, the origin is the diagonal cell with tag \<^verbatim>\<open>'D'\<close>;
  otherwise, if it equals the from-left candidate, the left cell with tag \<^verbatim>\<open>'L'\<close>;
  otherwise (it equals the from-above candidate) the cell above with tag \<^verbatim>\<open>'A'\<close>.  On
  ties the diagonal is preferred over the left, and the left over above.
\<close>

theorem setCell_origin_tie_break:
  assumes "1 \<le> row" and "1 \<le> col"
    and "table (row - 1, col - 1) = Some cd"
    and "table (row, col - 1) = Some cl"
    and "table (row - 1, col) = Some ca"
    and "table (row, col) \<noteq> None"
    and "charAt seq1Val (row - 1) = Some a"
    and "charAt seq2Val (col - 1) = Some b"
  shows "\<exists>table' cell.
           setCell table row col seq1Val seq2Val m s g = Some table' \<and>
           table' (row, col) = Some cell \<and>
           (let fromLeft = sint (getScore cl + g);
                fromAbove = sint (getScore ca + g);
                diagonal = sint (getScore cd + (if a = b then m else s));
                maximum = max diagonal (max fromLeft fromAbove)
            in sint (getScore cell) = maximum \<and>
               (getSource cell, getSourceChar cell) =
                 (if maximum = diagonal then (Some (row - 1, col - 1), CHR ''D'')
                  else if maximum = fromLeft then (Some (row, col - 1), CHR ''L'')
                  else (Some (row - 1, col), CHR ''A'')) \<and>
               (maximum = diagonal \<or> maximum = fromLeft \<or> maximum = fromAbove))"
proof -
  define l where "l = getScore cl + g"
  define u where "u = getScore ca + g"
  define d where "d = getScore cd + (if a = b then m else s)"
  define mx where "mx = TERNARY_MAX l u d"
  define cell where "cell =
        (if mx = d
         then \<lparr>sourceCell = Some (row - 1, col - 1), sourceChar = CHR ''D'', score = mx\<rparr>
         else if mx = l
         then \<lparr>sourceCell = Some (row, col - 1), sourceChar = CHR ''L'', score = mx\<rparr>
         else \<lparr>sourceCell = Some (row - 1, col), sourceChar = CHR ''A'', score = mx\<rparr>)"
  have eq: "setCell table row col seq1Val seq2Val m s g = Some (table((row, col) \<mapsto> cell))"
    unfolding cell_def mx_def l_def u_def d_def
    by (rule setCell_interior [OF assms refl refl refl refl])
  have mxs: "sint mx = max (sint d) (max (sint l) (sint u))"
    unfolding mx_def by (simp add: sint_TERNARY_MAX max.commute)
  have isd: "mx = d \<longleftrightarrow> max (sint d) (max (sint l) (sint u)) = sint d"
    and isl: "mx = l \<longleftrightarrow> max (sint d) (max (sint l) (sint u)) = sint l"
    unfolding mxs [symmetric] by (simp_all add: word_eq_iff_signed [where ?'a = int])
  have sc: "sint (getScore cell) = max (sint d) (max (sint l) (sint u))"
  proof -
    have "getScore cell = mx" by (simp add: cell_def getScore_def)
    then show ?thesis by (simp only: mxs)
  qed
  have org: "(getSource cell, getSourceChar cell) =
       (if max (sint d) (max (sint l) (sint u)) = sint d
        then (Some (row - 1, col - 1), CHR ''D'')
        else if max (sint d) (max (sint l) (sint u)) = sint l
        then (Some (row, col - 1), CHR ''L'')
        else (Some (row - 1, col), CHR ''A''))"
    unfolding isd [symmetric] isl [symmetric]
    by (simp add: cell_def getSource_def getSourceChar_def)
  have one: "max (sint d) (max (sint l) (sint u)) = sint d \<or>
             max (sint d) (max (sint l) (sint u)) = sint l \<or>
             max (sint d) (max (sint l) (sint u)) = sint u"
    by (simp add: max_def)
  have "(table((row, col) \<mapsto> cell)) (row, col) = Some cell"
    by simp
  with eq sc org one show ?thesis
    unfolding Let_def l_def u_def d_def by blast
qed

theorem setCell_origin_tie_break_witness:
  "\<exists>table' cell.
     setCell [(1, 0) \<mapsto> \<lparr>sourceCell = None, sourceChar = CHR 0x00, score = - 2\<rparr>,
              (2, 0) \<mapsto> \<lparr>sourceCell = None, sourceChar = CHR 0x00, score = - 4\<rparr>,
              (1, 1) \<mapsto> \<lparr>sourceCell = Some (0, 0), sourceChar = CHR ''D'', score = 2\<rparr>,
              (2, 1) \<mapsto> \<lparr>sourceCell = None, sourceChar = CHR 0x00, score = 7\<rparr>]
        2 1 (Some ''AA'') (Some ''A'') 2 (- 1) (- 2) = Some table' \<and>
     table' (2, 1) = Some cell \<and>
     sint (getScore cell) = 0 \<and> getSource cell = Some (1, 0) \<and> getSourceChar cell = CHR ''D''"
  using setCell_origin_tie_break
    [where row = 2 and col = 1 and seq1Val = "Some ''AA''" and seq2Val = "Some ''A''"
       and a = "CHR ''A''" and b = "CHR ''A''" and m = 2 and s = "- 1" and g = "- 2"
       and cd = "\<lparr>sourceCell = None, sourceChar = CHR 0x00, score = - 2\<rparr>"
       and cl = "\<lparr>sourceCell = None, sourceChar = CHR 0x00, score = - 4\<rparr>"
       and ca = "\<lparr>sourceCell = Some (0, 0), sourceChar = CHR ''D'', score = 2\<rparr>"
       and table = "[(1, 0) \<mapsto> \<lparr>sourceCell = None, sourceChar = CHR 0x00, score = - 2\<rparr>,
              (2, 0) \<mapsto> \<lparr>sourceCell = None, sourceChar = CHR 0x00, score = - 4\<rparr>,
              (1, 1) \<mapsto> \<lparr>sourceCell = Some (0, 0), sourceChar = CHR ''D'', score = 2\<rparr>,
              (2, 1) \<mapsto> \<lparr>sourceCell = None, sourceChar = CHR 0x00, score = 7\<rparr>]"]
  by (simp add: charAt_def getScore_def)

text \<open>
  C10.  For an interior cell the maximum of the three candidates is one of them, so the
  branch chain of \<^verbatim>\<open>setCell\<close> always takes one of its three branches: the cell it writes
  has a source cell other than \<^verbatim>\<open>NULL\<close> and a tag among \<^verbatim>\<open>'D'\<close>, \<^verbatim>\<open>'L'\<close> and \<^verbatim>\<open>'A'\<close>.
\<close>

theorem setCell_source_assigned:
  assumes "1 \<le> row" and "1 \<le> col"
    and "table (row - 1, col - 1) = Some cd"
    and "table (row, col - 1) = Some cl"
    and "table (row - 1, col) = Some ca"
    and "table (row, col) \<noteq> None"
    and "charAt seq1Val (row - 1) = Some a"
    and "charAt seq2Val (col - 1) = Some b"
  shows "(let fromLeft = getScore cl + g;
              fromAbove = getScore ca + g;
              diagonal = getScore cd + (if a = b then m else s);
              maxScore = TERNARY_MAX fromLeft fromAbove diagonal
          in maxScore = diagonal \<or> maxScore = fromLeft \<or> maxScore = fromAbove) \<and>
         (\<exists>table' cell.
            setCell table row col seq1Val seq2Val m s g = Some table' \<and>
            table' (row, col) = Some cell \<and>
            getSource cell \<noteq> None \<and>
            getSourceChar cell \<in> {CHR ''D'', CHR ''L'', CHR ''A''})"
proof -
  let ?l = "getScore cl + g" and ?a = "getScore ca + g"
    and ?d = "getScore cd + (if a = b then m else s)"
  let ?mx = "TERNARY_MAX ?l ?a ?d"
  have one: "?mx = ?d \<or> ?mx = ?l \<or> ?mx = ?a"
    using TERNARY_MAX_cases [of ?l ?a ?d] by auto
  have eq: "setCell table row col seq1Val seq2Val m s g =
      Some (table((row, col) \<mapsto>
        (if ?mx = ?d
         then \<lparr>sourceCell = Some (row - 1, col - 1), sourceChar = CHR ''D'', score = ?mx\<rparr>
         else if ?mx = ?l
         then \<lparr>sourceCell = Some (row, col - 1), sourceChar = CHR ''L'', score = ?mx\<rparr>
         else \<lparr>sourceCell = Some (row - 1, col), sourceChar = CHR ''A'', score = ?mx\<rparr>)))"
    by (rule setCell_interior [OF assms refl refl refl refl])
  have "\<exists>table' cell.
            setCell table row col seq1Val seq2Val m s g = Some table' \<and>
            table' (row, col) = Some cell \<and>
            getSource cell \<noteq> None \<and>
            getSourceChar cell \<in> {CHR ''D'', CHR ''L'', CHR ''A''}"
    unfolding eq by (simp add: getSource_def getSourceChar_def)
  with one show ?thesis
    by (simp add: Let_def)
qed

theorem setCell_source_assigned_witness:
  "\<exists>table' cell.
     setCell [(0, 0) \<mapsto> \<lparr>sourceCell = None, sourceChar = CHR 0x00, score = 0\<rparr>,
              (1, 0) \<mapsto> \<lparr>sourceCell = None, sourceChar = CHR 0x00, score = - 1\<rparr>,
              (0, 1) \<mapsto> \<lparr>sourceCell = None, sourceChar = CHR 0x00, score = - 1\<rparr>,
              (1, 1) \<mapsto> \<lparr>sourceCell = None, sourceChar = CHR 0x00, score = 7\<rparr>]
        1 1 (Some ''G'') (Some ''C'') 1 (- 5) (- 1) = Some table' \<and>
     table' (1, 1) = Some cell \<and> getSource cell \<noteq> None \<and>
     getSourceChar cell \<in> {CHR ''D'', CHR ''L'', CHR ''A''}"
  using setCell_source_assigned
    [where row = 1 and col = 1 and seq1Val = "Some ''G''" and seq2Val = "Some ''C''"
       and a = "CHR ''G''" and b = "CHR ''C''" and m = 1 and s = "- 5" and g = "- 1"
       and cd = "\<lparr>sourceCell = None, sourceChar = CHR 0x00, score = 0\<rparr>"
       and cl = "\<lparr>sourceCell = None, sourceChar = CHR 0x00, score = - 1\<rparr>"
       and ca = "\<lparr>sourceCell = None, sourceChar = CHR 0x00, score = - 1\<rparr>"
       and table = "[(0, 0) \<mapsto> \<lparr>sourceCell = None, sourceChar = CHR 0x00, score = 0\<rparr>,
              (1, 0) \<mapsto> \<lparr>sourceCell = None, sourceChar = CHR 0x00, score = - 1\<rparr>,
              (0, 1) \<mapsto> \<lparr>sourceCell = None, sourceChar = CHR 0x00, score = - 1\<rparr>,
              (1, 1) \<mapsto> \<lparr>sourceCell = None, sourceChar = CHR 0x00, score = 7\<rparr>]"]
  by (simp add: charAt_def)

section \<open>The program on concrete inputs\<close>

text \<open>
  C9.  \<^verbatim>\<open>initializeSeq\<close> leaves \<^verbatim>\<open>seqLen\<close> as \<^verbatim>\<open>malloc\<close> returned it, and \<^verbatim>\<open>setSeqVal\<close>
  adds the length of the value to it: in a block whose \<^verbatim>\<open>seqLen\<close> bytes held 5, the
  sequence read from the value line \<^verbatim>\<open>ACGT\<close> has \<^verbatim>\<open>seqLen\<close> 9 and a value of length 4.
\<close>

theorem seqLen_keeps_uninitialised_value:
  "getSeqLen (readSequence 5 ''seq1'' ''ACGT'') = 9 \<and>
   getSeqVal (readSequence 5 ''seq1'' ''ACGT'') = Some ''ACGT''"
  by (simp add: sequence_defs)

text \<open>
  C3.  \<^verbatim>\<open>initializeTable\<close> on a table of 3 rows and 3 columns: the cells of the first
  column and of the first row get the scores \<open>g\<close> and \<open>2 * g\<close>, a \<^verbatim>\<open>NULL\<close> source and the
  tag 0, as Cell(0,0) does; none has the origin \<^verbatim>\<open>'A'\<close> or \<^verbatim>\<open>'L'\<close>.
\<close>

theorem initializeTable_border_no_origin:
  "\<exists>t. initializeTable (createTable U 3 3) 3 3 g = Some t \<and>
       t (0, 0) = Some \<lparr>sourceCell = None, sourceChar = CHR 0x00, score = 0\<rparr> \<and>
       t (1, 0) = Some \<lparr>sourceCell = None, sourceChar = CHR 0x00, score = g\<rparr> \<and>
       t (2, 0) = Some \<lparr>sourceCell = None, sourceChar = CHR 0x00, score = 2 * g\<rparr> \<and>
       t (0, 1) = Some \<lparr>sourceCell = None, sourceChar = CHR 0x00, score = g\<rparr> \<and>
       t (0, 2) = Some \<lparr>sourceCell = None, sourceChar = CHR 0x00, score = 2 * g\<rparr>"
  by (simp add: table_defs upt_rec Let_def)

text \<open>
  C2.  On \<^verbatim>\<open>AA\<close> and \<^verbatim>\<open>A\<close> with match 2, mismatch -1 and gap -2, in zeroed memory, the
  score is 0 and the alignment returned is \<^verbatim>\<open>A\<close> over \<^verbatim>\<open>A\<close>, not \<^verbatim>\<open>AA\<close> over \<^verbatim>\<open>-A\<close>.
\<close>

theorem compareSequences_AA_A:
  "compareSequences zeroed (readSequence 0 ''seq1'' ''AA'') (readSequence 0 ''seq2'' ''A'')
     2 (- 1) (- 2) = Some (0, ''A\<newline>A\<newline>'')"
  by (simp add: sequence_defs table_defs backtrace_defs zeroed_def upt_rec Let_def)

text \<open>
  C4.  On \<^verbatim>\<open>AA\<close> and \<^verbatim>\<open>A\<close> with match 2, mismatch -1 and gap -2 the walk goes from
  Cell(2,1) to Cell(1,0), which has no source, and stops there, not at Cell(0,0):
  \<open>i\<close> is still 0, and each string has received one character, where \<open>m\<close> is 2.
\<close>

theorem backtrace_stops_in_first_column:
  "\<exists>t. fillTable (createTable zeroed 3 2) (readSequence 0 ''seq1'' ''AA'')
          (readSequence 0 ''seq2'' ''A'') 2 (- 1) (- 2) = Some t \<and>
       map_option getSource (t (2, 1)) = Some (Some (1, 0)) \<and>
       map_option getSource (t (1, 0)) = Some None \<and>
       calAlignment_loop zeroed t (Some ''AA'') (Some ''A'')
          \<lparr>currCell = Some (2, 1), i = 1, j = 0, seq1Add = [], seq2Add = [], idx = 1\<rparr>
         = Some \<lparr>currCell = None, i = 0, j = 2 ^ 64 - 1,
                 seq1Add = ''A'', seq2Add = ''A'', idx = 3\<rparr>"
  by (simp add: sequence_defs table_defs backtrace_defs zeroed_def upt_rec Let_def)

text \<open>
  C6.  On \<^verbatim>\<open>AC\<close> and \<^verbatim>\<open>C\<close> with match 1, mismatch -1 and gap -1, in zeroed memory, the
  alignment returned is \<^verbatim>\<open>C\<close> over \<^verbatim>\<open>C\<close>: the first string has no gap character and
  is not \<^verbatim>\<open>AC\<close>.
\<close>

theorem compareSequences_AC_C:
  "compareSequences zeroed (readSequence 0 ''seq1'' ''AC'') (readSequence 0 ''seq2'' ''C'')
     1 (- 1) (- 1) = Some (0, ''C\<newline>C\<newline>'')"
  by (simp add: sequence_defs table_defs backtrace_defs zeroed_def upt_rec Let_def)

text \<open>
  C7.  On \<^verbatim>\<open>A\<close> and \<^verbatim>\<open>A\<close>, when the block \<^verbatim>\<open>malloc\<close> returns for \<^verbatim>\<open>seq1Final\<close> holds the
  string \<^verbatim>\<open>x\<close> and the one for \<^verbatim>\<open>seq2Final\<close> the empty string, the last pass of the
  loop, at the cell with tag 0, writes into neither and appends the strings so far to
  both: the alignment returned is \<^verbatim>\<open>xA\<close> over \<^verbatim>\<open>A\<close>, of lengths 2 and 1.
\<close>

theorem compareSequences_uninitialised_buffer:
  "compareSequences (zeroed\<lparr>uninitSeq1Final := \<lambda>_. ''x''\<rparr>)
     (readSequence 0 ''seq1'' ''A'') (readSequence 0 ''seq2'' ''A'')
     1 (- 1) (- 1) = Some (1, ''xA\<newline>A\<newline>'')"
  by (simp add: sequence_defs table_defs backtrace_defs zeroed_def upt_rec Let_def)

section \<open>What the loops of fillTable leave in the table\<close>

lemma for_loop_append:
  "for_loop (xs @ ys) body s = for_loop xs body s \<bind> for_loop ys body"
  by (induction xs arbitrary: s) (auto split: Option.bind_split)

lemma for_loop_upt:
  assumes "a \<le> b" and "I a s"
    and step: "\<And>k t. a \<le> k \<Longrightarrow> k < b \<Longrightarrow> I k t \<Longrightarrow> \<exists>t'. body k t = Some t' \<and> I (Suc k) t'"
  shows "\<exists>s'. for_loop [a..<b] body s = Some s' \<and> I b s'"
  using assms(1) step
proof (induction b rule: dec_induct)
  case base
  show ?case using \<open>I a s\<close> by simp
next
  case (step n)
  from step.IH step.prems obtain s1 where s1: "for_loop [a..<n] body s = Some s1" "I n s1"
    by (meson less_Suc_eq)
  from step.prems [OF step.hyps(1) _ s1(2)] obtain s2 where "body n s1 = Some s2" "I (Suc n) s2"
    by auto
  with s1 step.hyps show ?case
    by (simp add: for_loop_append)
qed

lemma partTable_update:
  assumes "r < rows" and "c < cols"
  shows "(partTable U A B m s g rows cols written)((r, c) \<mapsto> tableCell A B m s g r c) =
         partTable U A B m s g rows cols (\<lambda>r' c'. written r' c' \<or> (r' = r \<and> c' = c))"
  using assms by (auto simp: partTable_def fun_eq_iff)

lemma partTable_cong:
  assumes "\<And>r c. r < rows \<Longrightarrow> c < cols \<Longrightarrow> written r c = written' r c"
  shows "partTable U A B m s g rows cols written = partTable U A B m s g rows cols written'"
  using assms by (auto simp: partTable_def fun_eq_iff)

lemma createTable_partTable:
  "createTable U rows cols = partTable U A B m s g rows cols (\<lambda>_ _. False)"
  by (simp add: createTable_def partTable_def fun_eq_iff)

lemma initializeCell_partTable:
  assumes "r < rows" and "c < cols" and "r = 0 \<or> c = 0"
  shows "initializeCell (partTable U A B m s g rows cols written) (r, c) None (CHR 0x00)
           (tableScore A B m s g r c)
         = Some (partTable U A B m s g rows cols (\<lambda>r' c'. written r' c' \<or> (r' = r \<and> c' = c)))"
proof -
  have "tableCell A B m s g r c =
        \<lparr>sourceCell = None, sourceChar = CHR 0x00, score = tableScore A B m s g r c\<rparr>"
    using assms(3) by (simp add: tableCell_def)
  then show ?thesis
    using partTable_update [OF assms(1,2), of U A B m s g written] assms(1,2)
    by (simp add: initializeCell_def partTable_def)
qed

lemma tableScore_col0: "tableScore A B m s g r 0 = of_nat r * g"
  by (cases r) simp_all

lemma initializeTable_partTable:
  assumes "0 < rows" and "0 < cols"
  shows "initializeTable (createTable U rows cols) rows cols g =
         Some (partTable U A B m s g rows cols (\<lambda>r c. r = 0 \<or> c = 0))"
proof -
  let ?P = "partTable U A B m s g rows cols"
  have t0: "initializeCell (createTable U rows cols) (0, 0) None (CHR 0x00) 0
            = Some (?P (\<lambda>r c. r = 0 \<and> c = 0))"
    using initializeCell_partTable [of 0 rows 0 cols U A B m s g "\<lambda>_ _. False"] assms
    by (simp add: createTable_partTable [of U rows cols A B m s g])
  have "\<exists>t1. for_loop [1..<rows]
               (\<lambda>r t. initializeCell t (r, 0) None (CHR 0x00) (of_nat r * g))
               (?P (\<lambda>r c. r = 0 \<and> c = 0)) = Some t1 \<and>
             t1 = ?P (\<lambda>r c. c = 0 \<and> r < rows)"
  proof (rule for_loop_upt [where I = "\<lambda>k t. t = ?P (\<lambda>r c. c = 0 \<and> r < k)"])
    show "1 \<le> rows" using assms by simp
    show "?P (\<lambda>r c. r = 0 \<and> c = 0) = ?P (\<lambda>r c. c = 0 \<and> r < 1)"
      by (rule partTable_cong) auto
  next
    fix k t assume k: "1 \<le> k" "k < rows" and t: "t = ?P (\<lambda>r c. c = 0 \<and> r < k)"
    have "initializeCell t (k, 0) None (CHR 0x00) (of_nat k * g)
          = Some (?P (\<lambda>r' c'. (c' = 0 \<and> r' < k) \<or> (r' = k \<and> c' = 0)))"
      unfolding t
      using initializeCell_partTable [of k rows 0 cols U A B m s g "\<lambda>r c. c = 0 \<and> r < k"] k assms
      by (simp add: tableScore_col0)
    moreover have "?P (\<lambda>r' c'. (c' = 0 \<and> r' < k) \<or> (r' = k \<and> c' = 0))
                   = ?P (\<lambda>r c. c = 0 \<and> r < Suc k)"
      by (rule partTable_cong) auto
    ultimately show "\<exists>t'. initializeCell t (k, 0) None (CHR 0x00) (of_nat k * g) = Some t' \<and>
                          t' = ?P (\<lambda>r c. c = 0 \<and> r < Suc k)"
      by simp
  qed
  then have t1: "for_loop [1..<rows]
               (\<lambda>r t. initializeCell t (r, 0) None (CHR 0x00) (of_nat r * g))
               (?P (\<lambda>r c. r = 0 \<and> c = 0)) = Some (?P (\<lambda>r c. c = 0 \<and> r < rows))"
    by simp
  have "\<exists>t2. for_loop [1..<cols]
               (\<lambda>c t. initializeCell t (0, c) None (CHR 0x00) (of_nat c * g))
               (?P (\<lambda>r c. c = 0 \<and> r < rows)) = Some t2 \<and>
             t2 = ?P (\<lambda>r c. c = 0 \<or> (r = 0 \<and> c < cols))"
  proof (rule for_loop_upt [where I = "\<lambda>k t. t = ?P (\<lambda>r c. c = 0 \<or> (r = 0 \<and> c < k))"])
    show "1 \<le> cols" using assms by simp
    show "?P (\<lambda>r c. c = 0 \<and> r < rows) = ?P (\<lambda>r c. c = 0 \<or> (r = 0 \<and> c < 1))"
      by (rule partTable_cong) auto
  next
    fix k t assume k: "1 \<le> k" "k < cols" and t: "t = ?P (\<lambda>r c. c = 0 \<or> (r = 0 \<and> c < k))"
    have "initializeCell t (0, k) None (CHR 0x00) (of_nat k * g)
          = Some (?P (\<lambda>r' c'. (c' = 0 \<or> (r' = 0 \<and> c' < k)) \<or> (r' = 0 \<and> c' = k)))"
      unfolding t
      using initializeCell_partTable [of 0 rows k cols U A B m s g "\<lambda>r c. c = 0 \<or> (r = 0 \<and> c < k)"] k assms
      by simp
    moreover have "?P (\<lambda>r' c'. (c' = 0 \<or> (r' = 0 \<and> c' < k)) \<or> (r' = 0 \<and> c' = k))
                   = ?P (\<lambda>r c. c = 0 \<or> (r = 0 \<and> c < Suc k))"
      by (rule partTable_cong) auto
    ultimately show "\<exists>t'. initializeCell t (0, k) None (CHR 0x00) (of_nat k * g) = Some t' \<and>
                          t' = ?P (\<lambda>r c. c = 0 \<or> (r = 0 \<and> c < Suc k))"
      by simp
  qed
  moreover have "?P (\<lambda>r c. c = 0 \<or> (r = 0 \<and> c < cols)) = ?P (\<lambda>r c. r = 0 \<or> c = 0)"
    by (rule partTable_cong) auto
  ultimately have t2: "for_loop [1..<cols]
               (\<lambda>c t. initializeCell t (0, c) None (CHR 0x00) (of_nat c * g))
               (?P (\<lambda>r c. c = 0 \<and> r < rows)) = Some (?P (\<lambda>r c. r = 0 \<or> c = 0))"
    by simp
  show ?thesis
    by (simp only: initializeTable_def t0 t1 t2 Option.bind.bind_lunit)
qed


lemma getScore_tableCell: "getScore (tableCell A B m s g r c) = tableScore A B m s g r c"
proof (cases "r = 0 \<or> c = 0")
  case True
  then show ?thesis by (simp add: tableCell_def getScore_def)
next
  case False
  then obtain r' c' where "r = Suc r'" "c = Suc c'"
    by (metis not0_implies_Suc)
  then show ?thesis
    by (simp add: tableCell_def getScore_def Let_def)
qed

lemma setCell_partTable:
  assumes r: "1 \<le> r" "r < length A + 1" and c: "1 \<le> c" "c < length B + 1"
    and w: "written (r - 1) (c - 1)" "written r (c - 1)" "written (r - 1) c"
  shows "setCell (partTable U A B m s g (length A + 1) (length B + 1) written) r c
           (Some A) (Some B) m s g
         = Some (partTable U A B m s g (length A + 1) (length B + 1)
                  (\<lambda>r' c'. written r' c' \<or> (r' = r \<and> c' = c)))"
proof -
  let ?t = "partTable U A B m s g (length A + 1) (length B + 1) written"
  have cd: "?t (r - 1, c - 1) = Some (tableCell A B m s g (r - 1) (c - 1))"
    and cl: "?t (r, c - 1) = Some (tableCell A B m s g r (c - 1))"
    and ca: "?t (r - 1, c) = Some (tableCell A B m s g (r - 1) c)"
    and here: "?t (r, c) \<noteq> None"
    using r c w by (auto simp: partTable_def)
  have a: "charAt (Some A) (r - 1) = Some (A ! (r - 1))"
    and b: "charAt (Some B) (c - 1) = Some (B ! (c - 1))"
    using r c by (auto simp: charAt_def)
  let ?l = "getScore (tableCell A B m s g r (c - 1)) + g"
  let ?a = "getScore (tableCell A B m s g (r - 1) c) + g"
  let ?d = "getScore (tableCell A B m s g (r - 1) (c - 1))
              + (if A ! (r - 1) = B ! (c - 1) then m else s)"
  let ?mx = "TERNARY_MAX ?l ?a ?d"
  let ?X = "if ?mx = ?d
            then \<lparr>sourceCell = Some (r - 1, c - 1), sourceChar = CHR ''D'', score = ?mx\<rparr>
            else if ?mx = ?l
            then \<lparr>sourceCell = Some (r, c - 1), sourceChar = CHR ''L'', score = ?mx\<rparr>
            else \<lparr>sourceCell = Some (r - 1, c), sourceChar = CHR ''A'', score = ?mx\<rparr>"
  have step: "setCell ?t r c (Some A) (Some B) m s g = Some (?t((r, c) \<mapsto> ?X))"
    by (rule setCell_interior [OF r(1) c(1) cd cl ca here a b refl refl refl refl])
  have "r \<noteq> 0" "c \<noteq> 0" using r c by simp_all
  then have X: "?X = tableCell A B m s g r c"
    unfolding getScore_tableCell by (simp add: tableCell_def [of A B m s g r c] Let_def)
  show ?thesis
    by (simp only: step X partTable_update [OF r(2) c(2)])
qed

lemma fillTable_row:
  assumes r: "1 \<le> r" "r < length A + 1"
  shows "for_loop [1..<length B + 1] (\<lambda>c t'. setCell t' r c (Some A) (Some B) m s g)
           (partTable U A B m s g (length A + 1) (length B + 1) (\<lambda>r' c'. r' = 0 \<or> c' = 0 \<or> r' < r))
         = Some (partTable U A B m s g (length A + 1) (length B + 1)
                  (\<lambda>r' c'. r' = 0 \<or> c' = 0 \<or> r' < Suc r))"
proof -
  let ?P = "partTable U A B m s g (length A + 1) (length B + 1)"
  let ?J = "\<lambda>k r' c'. r' = 0 \<or> c' = 0 \<or> r' < r \<or> (r' = r \<and> c' < k)"
  have "\<exists>t1. for_loop [1..<length B + 1] (\<lambda>c t'. setCell t' r c (Some A) (Some B) m s g)
               (?P (\<lambda>r' c'. r' = 0 \<or> c' = 0 \<or> r' < r)) = Some t1 \<and>
             t1 = ?P (?J (length B + 1))"
  proof (rule for_loop_upt [where I = "\<lambda>k t. t = ?P (?J k)"])
    show "1 \<le> length B + 1" by simp
    show "?P (\<lambda>r' c'. r' = 0 \<or> c' = 0 \<or> r' < r) = ?P (?J 1)"
      by (rule partTable_cong) auto
  next
    fix k t assume k: "1 \<le> k" "k < length B + 1" and t: "t = ?P (?J k)"
    have "setCell t r k (Some A) (Some B) m s g
          = Some (?P (\<lambda>r' c'. ?J k r' c' \<or> (r' = r \<and> c' = k)))"
      unfolding t using r k by (intro setCell_partTable) auto
    moreover have "?P (\<lambda>r' c'. ?J k r' c' \<or> (r' = r \<and> c' = k)) = ?P (?J (Suc k))"
      by (rule partTable_cong) auto
    ultimately show "\<exists>t'. setCell t r k (Some A) (Some B) m s g = Some t' \<and> t' = ?P (?J (Suc k))"
      by simp
  qed
  moreover have "?P (?J (length B + 1)) = ?P (\<lambda>r' c'. r' = 0 \<or> c' = 0 \<or> r' < Suc r)"
    by (rule partTable_cong) auto
  ultimately show ?thesis by simp
qed

lemma fillTable_rows:
  "for_loop [1..<length A + 1]
     (\<lambda>r. for_loop [1..<length B + 1] (\<lambda>c t'. setCell t' r c (Some A) (Some B) m s g))
     (partTable U A B m s g (length A + 1) (length B + 1) (\<lambda>r c. r = 0 \<or> c = 0))
   = Some (filledTable A B m s g)"
proof -
  let ?P = "partTable U A B m s g (length A + 1) (length B + 1)"
  let ?I = "\<lambda>k r' c'. r' = 0 \<or> c' = 0 \<or> r' < k"
  have "\<exists>t1. for_loop [1..<length A + 1]
     (\<lambda>r. for_loop [1..<length B + 1] (\<lambda>c t'. setCell t' r c (Some A) (Some B) m s g))
     (?P (\<lambda>r c. r = 0 \<or> c = 0)) = Some t1 \<and> t1 = ?P (?I (length A + 1))"
  proof (rule for_loop_upt [where I = "\<lambda>k t. t = ?P (?I k)"])
    show "1 \<le> length A + 1" by simp
    show "?P (\<lambda>r c. r = 0 \<or> c = 0) = ?P (?I 1)"
      by (rule partTable_cong) auto
  next
    fix k t assume k: "1 \<le> k" "k < length A + 1" and t: "t = ?P (?I k)"
    show "\<exists>t'. for_loop [1..<length B + 1] (\<lambda>c t'. setCell t' k c (Some A) (Some B) m s g) t
               = Some t' \<and> t' = ?P (?I (Suc k))"
      unfolding t using fillTable_row [OF k, of B m s g U] by simp
  qed
  moreover have "?P (?I (length A + 1)) = filledTable A B m s g"
    by (auto simp: partTable_def filledTable_def fun_eq_iff)
  ultimately show ?thesis by simp
qed

lemma holds_size_add: "holds seq A \<Longrightarrow> size_add (getSeqLen seq) 1 = length A + 1"
  by (simp add: holds_def size_add_def)

lemma fillTable_filledTable:
  assumes "holds seq1 A" and "holds seq2 B"
  shows "fillTable (createTable U (length A + 1) (length B + 1)) seq1 seq2 m s g
         = Some (filledTable A B m s g)"
proof -
  have v: "getSeqVal seq1 = Some A" "getSeqVal seq2 = Some B"
    using assms by (simp_all add: holds_def)
  have init: "initializeTable (createTable U (length A + 1) (length B + 1))
                (length A + 1) (length B + 1) g
              = Some (partTable U A B m s g (length A + 1) (length B + 1) (\<lambda>r c. r = 0 \<or> c = 0))"
    by (rule initializeTable_partTable) simp_all
  show ?thesis
    by (simp only: fillTable_def Let_def holds_size_add [OF assms(1)] holds_size_add [OF assms(2)]
          v init Option.bind.bind_lunit fillTable_rows)
qed

section \<open>The backtrace on the filled table\<close>

lemma filledTable_cell:
  "r \<le> length A \<Longrightarrow> c \<le> length B \<Longrightarrow>
   filledTable A B m s g (r, c) = Some (tableCell A B m s g r c)"
  by (simp add: filledTable_def)

lemma tableCell_border:
  "r = 0 \<or> c = 0 \<Longrightarrow>
   getSource (tableCell A B m s g r c) = None \<and>
   getSourceChar (tableCell A B m s g r c) = CHR 0x00"
  by (simp add: tableCell_def getSource_def getSourceChar_def)

lemma tableCell_interior:
  assumes "1 \<le> r" and "1 \<le> c"
  shows "(getSource (tableCell A B m s g r c), getSourceChar (tableCell A B m s g r c))
           \<in> {(Some (r - 1, c - 1), CHR ''D''), (Some (r, c - 1), CHR ''L''),
               (Some (r - 1, c), CHR ''A'')}"
  using assms by (simp add: tableCell_def getSource_def getSourceChar_def Let_def)

lemma calAlignment_body_border:
  assumes "r \<le> length A" and "c \<le> length B" and "r = 0 \<or> c = 0"
    and "currCell w = Some (r, c)"
  shows "calAlignment_body U (filledTable A B m s g) (Some A) (Some B) w =
         Some \<lparr>currCell = None, i = i w, j = j w,
               seq1Add = uninitSeq1Final U (idx w) @ seq1Add w,
               seq2Add = uninitSeq2Final U (idx w) @ seq2Add w,
               idx = idx w + 1\<rparr>"
  using assms tableCell_border [OF assms(3), of A B m s g]
  by (simp add: calAlignment_body_def filledTable_cell analyzeSourceChar_def strcat_def)

lemma calAlignment_body_interior:
  assumes "1 \<le> r" "r \<le> length A" and "1 \<le> c" "c \<le> length B"
    and "currCell w = Some (r, c)" and "i w = size_dec r" and "j w = size_dec c"
  shows "\<exists>w' r' c'. calAlignment_body U (filledTable A B m s g) (Some A) (Some B) w = Some w' \<and>
           currCell w' = Some (r', c') \<and> r' + c' < r + c \<and> r' \<le> length A \<and> c' \<le> length B \<and>
           i w' = size_dec r' \<and> j w' = size_dec c'"
proof -
  have dec: "size_dec r = r - Suc 0" "size_dec c = c - Suc 0"
    using assms by (simp_all add: size_dec_def)
  have rd: "charAt (Some A) (r - Suc 0) = Some (A ! (r - Suc 0))"
    "charAt (Some B) (c - Suc 0) = Some (B ! (c - Suc 0))"
    using assms by (auto simp: charAt_def)
  from tableCell_interior [OF assms(1,3), of A B m s g]
  consider
      (D) "getSource (tableCell A B m s g r c) = Some (r - 1, c - 1)"
          "getSourceChar (tableCell A B m s g r c) = CHR ''D''"
    | (L) "getSource (tableCell A B m s g r c) = Some (r, c - 1)"
          "getSourceChar (tableCell A B m s g r c) = CHR ''L''"
    | (A) "getSource (tableCell A B m s g r c) = Some (r - 1, c)"
          "getSourceChar (tableCell A B m s g r c) = CHR ''A''"
    by auto
  then show ?thesis
  proof cases
    case D
    then show ?thesis
      using assms by (auto simp: calAlignment_body_def filledTable_cell analyzeSourceChar_def dec rd)
  next
    case L
    then show ?thesis
      using assms by (auto simp: calAlignment_body_def filledTable_cell analyzeSourceChar_def dec rd)
  next
    case A
    then show ?thesis
      using assms by (auto simp: calAlignment_body_def filledTable_cell analyzeSourceChar_def dec rd)
  qed
qed

lemma calAlignment_loop_filledTable:
  assumes "r \<le> length A" and "c \<le> length B"
    and "currCell w = Some (r, c)" and "i w = size_dec r" and "j w = size_dec c"
  shows "\<exists>w'. calAlignment_loop U (filledTable A B m s g) (Some A) (Some B) w = Some w'"
  using assms
proof (induction "r + c" arbitrary: r c w rule: less_induct)
  case less
  show ?case
  proof (cases "r = 0 \<or> c = 0")
    case True
    from calAlignment_body_border [OF less.prems(1,2) True less.prems(3), of U m s g]
    show ?thesis
      using less.prems(3)
      by (subst calAlignment_loop.simps) (simp add: calAlignment_loop.simps)
  next
    case False
    then have "1 \<le> r" "1 \<le> c" by simp_all
    from calAlignment_body_interior
           [OF this(1) less.prems(1) this(2) less.prems(2) less.prems(3,4,5), of U m s g]
    obtain w' r' c' where
      w': "calAlignment_body U (filledTable A B m s g) (Some A) (Some B) w = Some w'"
          "currCell w' = Some (r', c')" "r' + c' < r + c" "r' \<le> length A" "c' \<le> length B"
          "i w' = size_dec r'" "j w' = size_dec c'"
      by blast
    from less.hyps [OF w'(3,4,5,2,6,7)] obtain w'' where
      "calAlignment_loop U (filledTable A B m s g) (Some A) (Some B) w' = Some w''" ..
    then show ?thesis
      using less.prems(3) w'(1)
      by (subst calAlignment_loop.simps) simp
  qed
qed

lemma compareSequences_score:
  assumes "holds seq1 A" and "holds seq2 B"
  shows "\<exists>alignment. compareSequences U seq1 seq2 m s g =
           Some (tableScore A B m s g (length A) (length B), alignment)"
proof -
  have len: "getSeqLen seq1 = length A" "getSeqLen seq2 = length B"
    and v: "getSeqVal seq1 = Some A" "getSeqVal seq2 = Some B"
    using assms by (simp_all add: holds_def)
  have dec: "size_dec (length A + 1) = length A" "size_dec (length B + 1) = length B"
    by (simp_all add: size_dec_def)
  obtain w' where loop:
    "calAlignment_loop U (filledTable A B m s g) (Some A) (Some B)
       \<lparr>currCell = Some (length A, length B), i = size_dec (length A), j = size_dec (length B),
        seq1Add = [], seq2Add = [], idx = 1\<rparr> = Some w'"
    using calAlignment_loop_filledTable [of "length A" A "length B" B _ U m s g]
    by fastforce
  have al: "calAlignment U seq1 seq2 (filledTable A B m s g) (length A + 1) (length B + 1)
            = Some (createAlignment (idx w') (seq1Add w') (seq2Add w'))"
    by (simp only: calAlignment_def len v dec loop Option.bind.bind_lunit)
  show ?thesis
    by (simp only: compareSequences_def Let_def holds_size_add [OF assms(1)]
          holds_size_add [OF assms(2)] fillTable_filledTable [OF assms] dec
          filledTable_cell [OF order_refl order_refl] al Option.bind.bind_lunit
          getScore_tableCell) blast
qed

section \<open>Symmetry of the score\<close>

lemma MAX_macro_commute: "MAX_macro X Y = MAX_macro Y X"
  by (auto simp: MAX_macro_def word_sless_alt word_eq_iff_signed [where ?'a = int])

lemma TERNARY_MAX_swap: "TERNARY_MAX X Y Z = TERNARY_MAX Y X Z"
  by (simp add: TERNARY_MAX_def MAX_macro_commute [of X Y])

lemma tableScore_row0: "tableScore A B m s g 0 c = of_nat c * g"
  by simp

lemma tableScore_transpose: "tableScore A B m s g r c = tableScore B A m s g c r"
proof (induction A B m s g r c rule: tableScore.induct)
  case (1 A B m s g c)
  show ?case by (simp add: tableScore_col0)
next
  case (2 A B m s g r)
  show ?case by simp
next
  case (3 A B m s g r c)
  then show ?case
    by (simp add: TERNARY_MAX_swap [of "tableScore B A m s g c (Suc r) + g"] eq_commute [of "A ! r"])
qed

text \<open>
  C8.  For sequences \<open>A\<close> and \<open>B\<close> held by \<open>seq1\<close> and \<open>seq2\<close>, and any parameters,
  \<^verbatim>\<open>compareSequences\<close> returns on the pair in either order, whatever \<^verbatim>\<open>malloc\<close> left in
  memory, and reports the same score for \<open>(A, B)\<close> and for \<open>(B, A)\<close>.
\<close>

theorem compareSequences_symmetric:
  assumes "holds seq1 A" and "holds seq2 B"
  shows "\<exists>sc al1 al2.
           compareSequences U seq1 seq2 m s g = Some (sc, al1) \<and>
           compareSequences U' seq2 seq1 m s g = Some (sc, al2)"
  using compareSequences_score [OF assms, of U m s g]
        compareSequences_score [OF assms(2,1), of U' m s g]
  by (auto simp: tableScore_transpose [of A B m s g "length A" "length B"])

theorem compareSequences_symmetric_witness:
  "holds (readSequence 0 ''seq1'' ''GCA'') ''GCA'' \<and>
   holds (readSequence 0 ''seq2'' ''CA'') ''CA'' \<and>
   (\<exists>sc al1 al2.
      compareSequences zeroed (readSequence 0 ''seq1'' ''GCA'') (readSequence 0 ''seq2'' ''CA'')
        1 (- 1) (- 1) = Some (sc, al1) \<and>
      compareSequences zeroed (readSequence 0 ''seq2'' ''CA'') (readSequence 0 ''seq1'' ''GCA'')
        1 (- 1) (- 1) = Some (sc, al2))"
proof -
  have h1: "holds (readSequence 0 ''seq1'' ''GCA'') ''GCA''"
    and h2: "holds (readSequence 0 ''seq2'' ''CA'') ''CA''"
    by (simp_all add: holds_def sequence_defs)
  show ?thesis
    using h1 h2 compareSequences_symmetric [OF h1 h2, of zeroed 1 "- 1" "- 1" zeroed]
    by simp
qed


section \<open>The optimal score as a recurrence\<close>

lemma ungap_append: "ungap (xs @ ys) = ungap xs @ ungap ys"
  by (induction xs) (auto split: option.splits)

lemma ungap_Nil_iff: "ungap xs = [] \<longleftrightarrow> set xs \<subseteq> {None}"
  by (induction xs) (auto split: option.splits)

lemma globalAlignments_Nil: "globalAlignments [] [] = {[]}"
proof -
  have "al = []" if "al \<in> globalAlignments [] []" for al
  proof (cases al)
    case Nil
    then show ?thesis .
  next
    case (Cons col rest)
    obtain x y where col: "col = (x, y)" by (cases col)
    from that Cons col have "x = None" "y = None" "(None, None) \<notin> set al"
      by (auto simp: globalAlignments_def split: option.splits)
    with Cons col show ?thesis by simp
  qed
  moreover have "[] \<in> globalAlignments [] []"
    by (simp add: globalAlignments_def)
  ultimately show ?thesis by auto
qed

lemma globalAlignments_snoc_Nil:
  "globalAlignments (A @ [a]) [] = (\<lambda>al. al @ [(Some a, None)]) ` globalAlignments A []"
proof (intro set_eqI iffI)
  fix al assume al: "al \<in> globalAlignments (A @ [a]) []"
  then have "al \<noteq> []" by (auto simp: globalAlignments_def)
  then obtain al' x y where eq: "al = al' @ [(x, y)]"
    by (cases al rule: rev_cases) auto
  from al eq have "y = None"
    by (auto simp: globalAlignments_def ungap_append split: option.splits)
  with al eq obtain x' where "x = Some x'"
    by (cases x) (auto simp: globalAlignments_def)
  with al eq \<open>y = None\<close> show "al \<in> (\<lambda>al. al @ [(Some a, None)]) ` globalAlignments A []"
    by (auto simp: globalAlignments_def ungap_append)
next
  fix al assume "al \<in> (\<lambda>al. al @ [(Some a, None)]) ` globalAlignments A []"
  then show "al \<in> globalAlignments (A @ [a]) []"
    by (auto simp: globalAlignments_def ungap_append)
qed

lemma globalAlignments_Nil_snoc:
  "globalAlignments [] (B @ [b]) = (\<lambda>al. al @ [(None, Some b)]) ` globalAlignments [] B"
proof (intro set_eqI iffI)
  fix al assume al: "al \<in> globalAlignments [] (B @ [b])"
  then have "al \<noteq> []" by (auto simp: globalAlignments_def)
  then obtain al' x y where eq: "al = al' @ [(x, y)]"
    by (cases al rule: rev_cases) auto
  from al eq have "x = None"
    by (auto simp: globalAlignments_def ungap_append split: option.splits)
  with al eq obtain y' where "y = Some y'"
    by (cases y) (auto simp: globalAlignments_def)
  with al eq \<open>x = None\<close> show "al \<in> (\<lambda>al. al @ [(None, Some b)]) ` globalAlignments [] B"
    by (auto simp: globalAlignments_def ungap_append)
next
  fix al assume "al \<in> (\<lambda>al. al @ [(None, Some b)]) ` globalAlignments [] B"
  then show "al \<in> globalAlignments [] (B @ [b])"
    by (auto simp: globalAlignments_def ungap_append)
qed

lemma globalAlignments_snoc_snoc:
  "globalAlignments (A @ [a]) (B @ [b]) =
     (\<lambda>al. al @ [(Some a, Some b)]) ` globalAlignments A B \<union>
     (\<lambda>al. al @ [(Some a, None)]) ` globalAlignments A (B @ [b]) \<union>
     (\<lambda>al. al @ [(None, Some b)]) ` globalAlignments (A @ [a]) B"
  (is "?L = ?D \<union> ?U \<union> ?W")
proof (intro set_eqI iffI)
  fix al assume al: "al \<in> ?L"
  then have "al \<noteq> []" by (auto simp: globalAlignments_def)
  then obtain al' x y where eq: "al = al' @ [(x, y)]"
    by (cases al rule: rev_cases) auto
  show "al \<in> ?D \<union> ?U \<union> ?W"
  proof (cases x)
    case None
    with al eq obtain y' where "y = Some y'"
      by (cases y) (auto simp: globalAlignments_def)
    with al eq None have "al \<in> ?W"
      by (auto simp: globalAlignments_def ungap_append)
    then show ?thesis by simp
  next
    case (Some x')
    show ?thesis
    proof (cases y)
      case None
      with al eq Some have "al \<in> ?U"
        by (auto simp: globalAlignments_def ungap_append)
      then show ?thesis by simp
    next
      case (Some y')
      with al eq \<open>x = Some x'\<close> have "al \<in> ?D"
        by (auto simp: globalAlignments_def ungap_append)
      then show ?thesis by simp
    qed
  qed
next
  fix al assume "al \<in> ?D \<union> ?U \<union> ?W"
  then show "al \<in> ?L"
    by (auto simp: globalAlignments_def ungap_append)
qed

lemma globalAlignments_finite_nonempty:
  "finite (globalAlignments A B) \<and> globalAlignments A B \<noteq> {}"
proof (induction "length A + length B" arbitrary: A B rule: less_induct)
  case less
  show ?case
  proof (cases A rule: rev_cases)
    case Nil
    show ?thesis
    proof (cases B rule: rev_cases)
      case Nil
      with \<open>A = []\<close> show ?thesis by (simp add: globalAlignments_Nil)
    next
      case (snoc B' b)
      with \<open>A = []\<close> less [of "[]" B'] show ?thesis
        by (simp add: globalAlignments_Nil_snoc)
    qed
  next
    case (snoc A' a)
    show ?thesis
    proof (cases B rule: rev_cases)
      case Nil
      with snoc less [of A' "[]"] show ?thesis
        by (simp add: globalAlignments_snoc_Nil)
    next
      case B: (snoc B' b)
      with snoc less [of A' B'] less [of A' B] less [of A B'] show ?thesis
        by (simp add: globalAlignments_snoc_snoc)
    qed
  qed
qed

lemmas globalAlignments_finite = globalAlignments_finite_nonempty [THEN conjunct1]
lemmas globalAlignments_nonempty = globalAlignments_finite_nonempty [THEN conjunct2]

lemma alignmentScore_snoc:
  "alignmentScore M S G (al @ [col]) = alignmentScore M S G al + columnScore M S G col"
  by (simp add: alignmentScore_def)

lemma Max_alignmentScore_snoc:
  "Max (alignmentScore M S G ` (\<lambda>al. al @ [col]) ` globalAlignments A B)
   = optimalScore M S G A B + columnScore M S G col"
proof -
  have "alignmentScore M S G ` (\<lambda>al. al @ [col]) ` globalAlignments A B
        = (\<lambda>al. alignmentScore M S G al + columnScore M S G col) ` globalAlignments A B"
    by (simp add: image_image alignmentScore_snoc)
  then show ?thesis
    by (simp add: optimalScore_def Max_add_commute globalAlignments_finite
          globalAlignments_nonempty)
qed

lemma optimalScore_Nil: "optimalScore M S G [] [] = 0"
  by (simp add: optimalScore_def globalAlignments_Nil alignmentScore_def)

lemma optimalScore_snoc_Nil:
  "optimalScore M S G (A @ [a]) [] = optimalScore M S G A [] + G"
  using Max_alignmentScore_snoc [of M S G "(Some a, None)" A "[]"]
  by (simp add: optimalScore_def [of M S G "A @ [a]"] globalAlignments_snoc_Nil)

lemma optimalScore_Nil_snoc:
  "optimalScore M S G [] (B @ [b]) = optimalScore M S G [] B + G"
  using Max_alignmentScore_snoc [of M S G "(None, Some b)" "[]" B]
  by (simp add: optimalScore_def [of M S G "[]" "B @ [b]"] globalAlignments_Nil_snoc)

lemma optimalScore_snoc_snoc:
  "optimalScore M S G (A @ [a]) (B @ [b]) =
     max (max (optimalScore M S G (A @ [a]) B + G) (optimalScore M S G A (B @ [b]) + G))
         (optimalScore M S G A B + (if a = b then M else S))"
proof -
  let ?D = "(\<lambda>al. al @ [(Some a, Some b)]) ` globalAlignments A B"
  let ?U = "(\<lambda>al. al @ [(Some a, None)]) ` globalAlignments A (B @ [b])"
  let ?W = "(\<lambda>al. al @ [(None, Some b)]) ` globalAlignments (A @ [a]) B"
  let ?f = "alignmentScore M S G"
  have fin: "finite (?f ` ?D)" "finite (?f ` ?U)" "finite (?f ` ?W)"
    by (simp_all add: globalAlignments_finite)
  have ne: "?f ` ?D \<noteq> {}" "?f ` ?U \<noteq> {}" "?f ` ?W \<noteq> {}"
    by (simp_all add: globalAlignments_nonempty)
  have "optimalScore M S G (A @ [a]) (B @ [b]) = Max (?f ` ?D \<union> ?f ` ?U \<union> ?f ` ?W)"
    by (simp add: optimalScore_def [of M S G "A @ [a]"] globalAlignments_snoc_snoc image_Un)
  also have "\<dots> = max (max (Max (?f ` ?D)) (Max (?f ` ?U))) (Max (?f ` ?W))"
    using fin ne by (simp add: Max_Un)
  also have "\<dots> = max (max (optimalScore M S G A B + (if a = b then M else S))
                                (optimalScore M S G A (B @ [b]) + G))
                           (optimalScore M S G (A @ [a]) B + G)"
    by (simp only: Max_alignmentScore_snoc columnScore.simps)
  finally show ?thesis
    by (simp add: max.commute max.left_commute)
qed

lemma optimalScore_only_first: "optimalScore M S G A [] = int (length A) * G"
  by (induction A rule: rev_induct)
     (simp_all add: optimalScore_Nil optimalScore_snoc_Nil algebra_simps)

lemma optimalScore_only_second: "optimalScore M S G [] B = int (length B) * G"
  by (induction B rule: rev_induct)
     (simp_all add: optimalScore_Nil optimalScore_Nil_snoc algebra_simps)

lemma optimalScore_take:
  "r \<le> length A \<Longrightarrow> c \<le> length B \<Longrightarrow>
   optimalScore M S G (take r A) (take c B) = nwScore M S G A B r c"
proof (induction M S G A B r c rule: nwScore.induct)
  case (1 M S G A B c)
  then show ?case by (simp add: optimalScore_only_second)
next
  case (2 M S G A B r)
  then show ?case by (simp add: optimalScore_only_first)
next
  case (3 M S G A B r c)
  then have r: "r < length A" and c: "c < length B" by simp_all
  have "optimalScore M S G (take (Suc r) A) (take (Suc c) B)
        = optimalScore M S G (take r A @ [A ! r]) (take c B @ [B ! c])"
    by (simp only: take_Suc_conv_app_nth [OF r] take_Suc_conv_app_nth [OF c])
  also have "\<dots> = max (max (optimalScore M S G (take r A @ [A ! r]) (take c B) + G)
                              (optimalScore M S G (take r A) (take c B @ [B ! c]) + G))
                         (optimalScore M S G (take r A) (take c B)
                            + (if A ! r = B ! c then M else S))"
    by (rule optimalScore_snoc_snoc)
  also have "\<dots> = max (max (optimalScore M S G (take (Suc r) A) (take c B) + G)
                              (optimalScore M S G (take r A) (take (Suc c) B) + G))
                         (optimalScore M S G (take r A) (take c B)
                            + (if A ! r = B ! c then M else S))"
    by (simp only: take_Suc_conv_app_nth [OF r] take_Suc_conv_app_nth [OF c])
  finally show ?case
    using 3 r c by simp
qed

lemma optimalScore_nwScore:
  "optimalScore M S G A B = nwScore M S G A B (length A) (length B)"
  using optimalScore_take [of "length A" A "length B" B M S G] by simp

section \<open>The table holds the optimal scores\<close>

lemma nwScore_bound:
  "\<bar>M\<bar> \<le> K \<Longrightarrow> \<bar>S\<bar> \<le> K \<Longrightarrow> \<bar>G\<bar> \<le> K \<Longrightarrow> \<bar>nwScore M S G A B r c\<bar> \<le> int (r + c) * K"
proof (induction M S G A B r c rule: nwScore.induct)
  case (1 M S G A B c)
  have "\<bar>int c * G\<bar> = int c * \<bar>G\<bar>" by (simp add: abs_mult)
  also have "\<dots> \<le> int c * K" using \<open>\<bar>G\<bar> \<le> K\<close> by (intro mult_left_mono) simp_all
  finally show ?case by simp
next
  case (2 M S G A B r)
  have "\<bar>int (Suc r) * G\<bar> = int (Suc r) * \<bar>G\<bar>" by (simp add: abs_mult)
  also have "\<dots> \<le> int (Suc r) * K" using \<open>\<bar>G\<bar> \<le> K\<close> by (intro mult_left_mono) simp_all
  finally show ?case by simp
next
  case (3 M S G A B r c)
  have d: "\<bar>if A ! r = B ! c then M else S\<bar> \<le> K"
    using "3.prems" by simp
  have K: "0 \<le> K" using "3.prems"(1) by simp
  have e1: "int (Suc r + Suc c) * K = int (Suc r + c) * K + K"
    and e2: "int (Suc r + Suc c) * K = int (r + Suc c) * K + K"
    and e3: "int (r + c) * K + K \<le> int (Suc r + Suc c) * K"
    using K by (simp_all add: algebra_simps)
  have l: "\<bar>nwScore M S G A B (Suc r) c + G\<bar> \<le> int (Suc r + Suc c) * K"
    using "3.IH"(1) [OF "3.prems"] "3.prems"(3) e1 by linarith
  have a: "\<bar>nwScore M S G A B r (Suc c) + G\<bar> \<le> int (Suc r + Suc c) * K"
    using "3.IH"(2) [OF "3.prems"] "3.prems"(3) e2 by linarith
  have dg: "\<bar>nwScore M S G A B r c + (if A ! r = B ! c then M else S)\<bar> \<le> int (Suc r + Suc c) * K"
    using "3.IH"(3) [OF "3.prems"] d e3 by linarith
  show ?case
    unfolding nwScore.simps using l a dg by (simp only: max_def split: if_splits) auto
qed

lemma sint_in_range:
  "- (2 ^ 31) \<le> k \<Longrightarrow> k < 2 ^ 31 \<Longrightarrow> sint (word_of_int k :: cint) = k"
  by (simp add: sint_sbintrunc' signed_take_bit_int_eq_self)

lemma sint_add_in_range:
  assumes "- (2 ^ 31) \<le> sint a + sint b" and "sint a + sint b < 2 ^ 31"
  shows "sint (a + b :: cint) = sint a + sint b"
proof -
  have "a + b = word_of_int (sint a + sint b)" by simp
  then show ?thesis using sint_in_range [OF assms] by simp
qed

lemma sint_of_nat_mult_in_range:
  assumes "- (2 ^ 31) \<le> int n * sint g" and "int n * sint g < 2 ^ 31"
  shows "sint (of_nat n * g :: cint) = int n * sint g"
proof -
  have "of_nat n * g = (word_of_int (int n * sint g) :: cint)" by simp
  then show ?thesis using sint_in_range [OF assms] by simp
qed

lemma sint_tableScore_noOverflow:
  "noOverflow (sint m) (sint s) (sint g) A B \<Longrightarrow> r \<le> length A \<Longrightarrow> c \<le> length B \<Longrightarrow>
   sint (tableScore A B m s g r c) = nwScore (sint m) (sint s) (sint g) A B r c"
proof (induction A B m s g r c rule: tableScore.induct)
  case (1 A B m s g c)
  then have "cellInRange (sint m) (sint s) (sint g) A B 0 c"
    by (simp add: noOverflow_def)
  then show ?case
    by (simp add: cellInRange_def inRange_def sint_of_nat_mult_in_range)
next
  case (2 A B m s g r)
  then have "cellInRange (sint m) (sint s) (sint g) A B (Suc r) 0"
    by (simp add: noOverflow_def)
  then show ?case
    using sint_of_nat_mult_in_range [of "Suc r" g]
    by (simp add: cellInRange_def inRange_def)
next
  case (3 A B m s g r c)
  let ?nw = "nwScore (sint m) (sint s) (sint g) A B"
  let ?x = "if A ! r = B ! c then m else s"
  have sx: "sint ?x = (if A ! r = B ! c then sint m else sint s)" by simp
  from "3.prems" have "cellInRange (sint m) (sint s) (sint g) A B (Suc r) (Suc c)"
    by (simp add: noOverflow_def)
  then have rl: "inRange (?nw (Suc r) c + sint g)"
    and ra: "inRange (?nw r (Suc c) + sint g)"
    and rd: "inRange (?nw r c + sint ?x)"
    by (auto simp: cellInRange_def split: if_splits)
  have l0: "sint (tableScore A B m s g (Suc r) c) = ?nw (Suc r) c"
    and a0: "sint (tableScore A B m s g r (Suc c)) = ?nw r (Suc c)"
    and d0: "sint (tableScore A B m s g r c) = ?nw r c"
    using "3.IH" "3.prems" by simp_all
  have l: "sint (tableScore A B m s g (Suc r) c + g) = ?nw (Suc r) c + sint g"
    using rl sint_add_in_range [of "tableScore A B m s g (Suc r) c" g]
    by (simp add: inRange_def l0)
  have a: "sint (tableScore A B m s g r (Suc c) + g) = ?nw r (Suc c) + sint g"
    using ra sint_add_in_range [of "tableScore A B m s g r (Suc c)" g]
    by (simp add: inRange_def a0)
  have d: "sint (tableScore A B m s g r c + ?x) = ?nw r c + sint ?x"
    using rd sint_add_in_range [of "tableScore A B m s g r c" ?x]
    by (simp only: inRange_def d0)
  show ?case
    by (simp only: tableScore.simps nwScore.simps sint_TERNARY_MAX l a d sx)
qed

lemma noOverflow_bound:
  assumes "int (length A + length B) * max \<bar>M\<bar> (max \<bar>S\<bar> \<bar>G\<bar>) < 2 ^ 31"
  shows "noOverflow M S G A B"
proof -
  let ?K = "max \<bar>M\<bar> (max \<bar>S\<bar> \<bar>G\<bar>)"
  have K: "\<bar>M\<bar> \<le> ?K" "\<bar>S\<bar> \<le> ?K" "\<bar>G\<bar> \<le> ?K"
    by (simp_all add: le_max_iff_disj)
  have K0: "0 \<le> ?K" by simp
  have small: "inRange k" if "\<bar>k\<bar> \<le> int n * ?K" "n \<le> length A + length B" for k n
  proof -
    have "int n * ?K \<le> int (length A + length B) * ?K"
      using that(2) K0 by (intro mult_right_mono) simp_all
    with that(1) assms show ?thesis
      unfolding inRange_def by linarith
  qed
  have "cellInRange M S G A B r c" if rc: "r \<le> length A" "c \<le> length B" for r c
  proof (cases "r = 0 \<or> c = 0")
    case True
    have "inRange (int c * G)"
      using nwScore_bound [OF K, of A B 0 c] rc by (intro small [of _ c]) simp_all
    moreover have "inRange (int r * G)" if "r \<noteq> 0"
    proof -
      from that obtain r' where "r = Suc r'" by (cases r) simp_all
      then show ?thesis
        using nwScore_bound [OF K, of A B "Suc r'" 0] rc by (intro small [of _ r]) simp_all
    qed
    ultimately show ?thesis
      using True by (auto simp: cellInRange_def)
  next
    case False
    then obtain r' c' where eq: "r = Suc r'" "c = Suc c'"
      by (metis not0_implies_Suc)
    have x: "\<bar>if A ! r' = B ! c' then M else S\<bar> \<le> ?K"
      using K by simp
    have e1: "int (Suc r' + c') * ?K + ?K = int (r + c) * ?K"
      and e2: "int (r' + Suc c') * ?K + ?K = int (r + c) * ?K"
      and e3: "int (r' + c') * ?K + ?K \<le> int (r + c) * ?K"
      unfolding eq using K0 by (simp_all add: algebra_simps)
    have "inRange (nwScore M S G A B (Suc r') c' + G)"
      using nwScore_bound [OF K, of A B "Suc r'" c'] K(3) e1 rc
      by (intro small [of _ "r + c"]) linarith+
    moreover have "inRange (nwScore M S G A B r' (Suc c') + G)"
      using nwScore_bound [OF K, of A B r' "Suc c'"] K(3) e2 rc
      by (intro small [of _ "r + c"]) linarith+
    moreover have "inRange (nwScore M S G A B r' c' + (if A ! r' = B ! c' then M else S))"
      using nwScore_bound [OF K, of A B r' c'] x e3 rc
      by (intro small [of _ "r + c"]) linarith+
    ultimately show ?thesis
      by (simp add: cellInRange_def eq)
  qed
  then show ?thesis
    by (simp add: noOverflow_def)
qed

lemma tableScore_optimal:
  assumes "noOverflow (sint m) (sint s) (sint g) A B"
  shows "sint (tableScore A B m s g (length A) (length B))
         = optimalScore (sint m) (sint s) (sint g) A B"
  using sint_tableScore_noOverflow [OF assms order_refl order_refl]
  by (simp add: optimalScore_nwScore)

text \<open>
  C1.  For sequences \<open>A\<close> and \<open>B\<close> held by \<open>seq1\<close> and \<open>seq2\<close>, and parameters for
  which no product or sum formed for the table leaves the range of \<^verbatim>\<open>int\<close> (as it is
  whenever \<open>(length A + length B) * max(|M|, |S|, |G|) < 2 ^ 31\<close>, by lemma
  \<open>noOverflow_bound\<close>), \<^verbatim>\<open>compareSequences\<close> returns, whatever \<^verbatim>\<open>malloc\<close> left in memory,
  and the score it reports, the score of \<open>Cell(m,n)\<close>, is the optimal global alignment
  score of \<open>A\<close> and \<open>B\<close>: the maximum over all global alignments of the sum of the
  contributions of their columns.
\<close>

theorem compareSequences_optimal_score:
  assumes "holds seq1 A" and "holds seq2 B"
    and "noOverflow (sint m) (sint s) (sint g) A B"
  shows "\<exists>sc alignment.
           compareSequences U seq1 seq2 m s g = Some (sc, alignment) \<and>
           sint sc = optimalScore (sint m) (sint s) (sint g) A B"
  using compareSequences_score [OF assms(1,2), of U m s g] tableScore_optimal [OF assms(3)]
  by auto

lemma compareSequences_GCATGCU_GATTACA:
  "compareSequences zeroed (readSequence 0 ''seq1'' ''GCATGCU'')
     (readSequence 0 ''seq2'' ''GATTACA'') 1 (- 1) (- 1)
   = Some (0, ''GCA-TGCU\<newline>G-ATTACA\<newline>'')"
  by (simp add: sequence_defs table_defs backtrace_defs zeroed_def upt_rec Let_def)

theorem compareSequences_optimal_score_witness:
  "holds (readSequence 0 ''seq1'' ''GCATGCU'') ''GCATGCU'' \<and>
   holds (readSequence 0 ''seq2'' ''GATTACA'') ''GATTACA'' \<and>
   noOverflow (sint (1 :: cint)) (sint (- 1 :: cint)) (sint (- 1 :: cint))
     ''GCATGCU'' ''GATTACA'' \<and>
   compareSequences zeroed (readSequence 0 ''seq1'' ''GCATGCU'')
     (readSequence 0 ''seq2'' ''GATTACA'') 1 (- 1) (- 1)
     = Some (0, ''GCA-TGCU\<newline>G-ATTACA\<newline>'') \<and>
   optimalScore 1 (- 1) (- 1) ''GCATGCU'' ''GATTACA'' = 0"
proof -
  have h1: "holds (readSequence 0 ''seq1'' ''GCATGCU'') ''GCATGCU''"
    and h2: "holds (readSequence 0 ''seq2'' ''GATTACA'') ''GATTACA''"
    by (simp_all add: holds_def sequence_defs)
  have h3: "noOverflow (sint (1 :: cint)) (sint (- 1 :: cint)) (sint (- 1 :: cint))
              ''GCATGCU'' ''GATTACA''"
    by (rule noOverflow_bound) simp
  from compareSequences_optimal_score [OF h1 h2 h3, of zeroed]
  have "optimalScore 1 (- 1) (- 1) ''GCATGCU'' ''GATTACA'' = 0"
    by (simp add: compareSequences_GCATGCU_GATTACA)
  with h1 h2 h3 compareSequences_GCATGCU_GATTACA show ?thesis
    by blast
qed

text \<open>
  The condition is needed: on \<^verbatim>\<open>AA\<close> and \<^verbatim>\<open>AA\<close> with match 2147483647 and mismatch and gap 0
  the optimal score is 4294967294, which no \<^verbatim>\<open>int\<close> holds, and the score reported is
  2147483647.
\<close>

theorem compareSequences_overflow:
  "compareSequences zeroed (readSequence 0 ''seq1'' ''AA'') (readSequence 0 ''seq2'' ''AA'')
     2147483647 0 0 = Some (2147483647, ''A-\<newline>AA\<newline>'') \<and>
   sint (2147483647 :: cint) = 2147483647 \<and>
   optimalScore (sint (2147483647 :: cint)) (sint (0 :: cint)) (sint (0 :: cint)) ''AA'' ''AA''
     = 4294967294"
proof -
  have "compareSequences zeroed (readSequence 0 ''seq1'' ''AA'') (readSequence 0 ''seq2'' ''AA'')
     2147483647 0 0 = Some (2147483647, ''A-\<newline>AA\<newline>'')"
    by (simp add: sequence_defs table_defs backtrace_defs zeroed_def upt_rec Let_def)
  moreover have "optimalScore 2147483647 0 0 ''AA'' ''AA'' = 4294967294"
    by (simp add: optimalScore_nwScore numeral_2_eq_2)
  ultimately show ?thesis by simp
qed

section \<open>What the backtrace returns\<close>

text \<open>
  On the filled table the walk follows the sources from Cell(r,c) to the first cell
  \<open>(r0, c0)\<close> of the first row or the first column, and stops there.  The strings it
  has built are the two rows of a global alignment of the symbols of \<open>A\<close> between
  \<open>r0\<close> and \<open>r\<close> and of the symbols of \<open>B\<close> between \<open>c0\<close> and \<open>c\<close>, each after what
  the fresh buffer of the last pass held.
\<close>

lemma cstring_char: "a \<noteq> CHR 0x00 \<Longrightarrow> cstring [a, CHR 0x00] = [a]"
  by (simp add: cstring_def)

lemma globalAlignments_snocI:
  assumes "al \<in> globalAlignments A' B'" and "col \<noteq> (None, None)"
  shows "al @ [col] \<in> globalAlignments (A' @ ungap [fst col]) (B' @ ungap [snd col])"
  using assms by (cases col) (auto simp: globalAlignments_def ungap_append)

lemma drop_take_Suc:
  assumes "r0 \<le> r" and "r < length A"
  shows "drop r0 (take (Suc r) A) = drop r0 (take r A) @ [A ! r]"
  using assms by (simp add: take_Suc_conv_app_nth)

lemma calAlignment_loop_alignment:
  assumes "r \<le> length A" and "c \<le> length B"
    and "CHR 0x00 \<notin> set A" and "CHR 0x00 \<notin> set B"
  shows "\<exists>r0 c0 al.
           (r0 = 0 \<or> c0 = 0) \<and> r0 \<le> r \<and> c0 \<le> c \<and>
           al \<in> globalAlignments (drop r0 (take r A)) (drop c0 (take c B)) \<and>
           calAlignment_loop U (filledTable A B m s g) (Some A) (Some B)
             \<lparr>currCell = Some (r, c), i = size_dec r, j = size_dec c,
              seq1Add = s1, seq2Add = s2, idx = k\<rparr>
           = Some \<lparr>currCell = None, i = size_dec r0, j = size_dec c0,
                   seq1Add = uninitSeq1Final U (k + length al) @ firstRow al @ s1,
                   seq2Add = uninitSeq2Final U (k + length al) @ secondRow al @ s2,
                   idx = k + length al + 1\<rparr>"
  using assms(1,2)
proof (induction "r + c" arbitrary: r c s1 s2 k rule: less_induct)
  case less
  let ?T = "filledTable A B m s g"
  let ?w = "\<lparr>currCell = Some (r, c), i = size_dec r, j = size_dec c,
              seq1Add = s1, seq2Add = s2, idx = k\<rparr>"
  show ?case
  proof (cases "r = 0 \<or> c = 0")
    case True
    have "calAlignment_loop U ?T (Some A) (Some B) ?w
          = Some \<lparr>currCell = None, i = size_dec r, j = size_dec c,
                   seq1Add = uninitSeq1Final U k @ s1,
                   seq2Add = uninitSeq2Final U k @ s2,
                   idx = k + 1\<rparr>"
      using calAlignment_body_border [OF less.prems True, of ?w U m s g]
      by (subst calAlignment_loop.simps) (simp add: calAlignment_loop.simps)
    moreover have "[] \<in> globalAlignments (drop r (take r A)) (drop c (take c B))"
      by (simp add: globalAlignments_Nil)
    ultimately show ?thesis
      using True by (intro exI [of _ r] exI [of _ c] exI [of _ "[]"])
                    (simp add: firstRow_def secondRow_def)
  next
    case False
    then obtain r' c' where rc: "r = Suc r'" "c = Suc c'"
      by (metis not0_implies_Suc)
    have lt: "r' < length A" "c' < length B" using less.prems rc by simp_all
    have rd: "charAt (Some A) r' = Some (A ! r')" "charAt (Some B) c' = Some (B ! c')"
      using lt by (simp_all add: charAt_def)
    have nz: "A ! r' \<noteq> CHR 0x00" "B ! c' \<noteq> CHR 0x00"
      using lt assms(3,4) by (metis nth_mem)+
    have dec: "size_dec r = r'" "size_dec c = c'"
      using rc by (simp_all add: size_dec_def)
    have cell: "?T (r, c) = Some (tableCell A B m s g r c)"
      using less.prems by (simp add: filledTable_cell)
    from tableCell_interior [of r c A B m s g] rc
    consider
        (D) "getSource (tableCell A B m s g r c) = Some (r', c')"
            "getSourceChar (tableCell A B m s g r c) = CHR ''D''"
      | (L) "getSource (tableCell A B m s g r c) = Some (r, c')"
            "getSourceChar (tableCell A B m s g r c) = CHR ''L''"
      | (A) "getSource (tableCell A B m s g r c) = Some (r', c)"
            "getSourceChar (tableCell A B m s g r c) = CHR ''A''"
      by auto
    then show ?thesis
    proof cases
      case D
      let ?col = "(Some (A ! r'), Some (B ! c'))"
      have step: "calAlignment_loop U ?T (Some A) (Some B) ?w
            = calAlignment_loop U ?T (Some A) (Some B)
                \<lparr>currCell = Some (r', c'), i = size_dec r', j = size_dec c',
                 seq1Add = [A ! r'] @ s1, seq2Add = [B ! c'] @ s2, idx = k + 1\<rparr>"
        by (subst calAlignment_loop.simps)
           (simp add: calAlignment_body_def cell D analyzeSourceChar_def dec rd
              cstring_char nz strcat_def)
      from less.hyps [of r' c' "[A ! r'] @ s1" "[B ! c'] @ s2" "k + 1"] rc lt
      obtain r0 c0 al where al: "r0 = 0 \<or> c0 = 0" "r0 \<le> r'" "c0 \<le> c'"
        "al \<in> globalAlignments (drop r0 (take r' A)) (drop c0 (take c' B))"
        "calAlignment_loop U ?T (Some A) (Some B)
           \<lparr>currCell = Some (r', c'), i = size_dec r', j = size_dec c',
            seq1Add = [A ! r'] @ s1, seq2Add = [B ! c'] @ s2, idx = k + 1\<rparr>
         = Some \<lparr>currCell = None, i = size_dec r0, j = size_dec c0,
                 seq1Add = uninitSeq1Final U (k + 1 + length al) @ firstRow al @ [A ! r'] @ s1,
                 seq2Add = uninitSeq2Final U (k + 1 + length al) @ secondRow al @ [B ! c'] @ s2,
                 idx = k + 1 + length al + 1\<rparr>"
        by force
      have "al @ [?col] \<in> globalAlignments (drop r0 (take r A)) (drop c0 (take c B))"
        using globalAlignments_snocI [OF al(4), of ?col] al(2,3) lt
        by (simp add: rc drop_take_Suc)
      with al(1,2,3) show ?thesis
        unfolding step al(5)
        by (intro exI [of _ r0] exI [of _ c0] exI [of _ "al @ [?col]"])
           (simp add: rc firstRow_def secondRow_def)
    next
      case L
      let ?col = "(None, Some (B ! c'))"
      have step: "calAlignment_loop U ?T (Some A) (Some B) ?w
            = calAlignment_loop U ?T (Some A) (Some B)
                \<lparr>currCell = Some (r, c'), i = size_dec r, j = size_dec c',
                 seq1Add = [SPACE_CHAR] @ s1, seq2Add = [B ! c'] @ s2, idx = k + 1\<rparr>"
        by (subst calAlignment_loop.simps)
           (simp add: calAlignment_body_def cell L analyzeSourceChar_def dec rd
              cstring_char nz strcat_def SPACE_CHAR_def)
      from less.hyps [of r c' "[SPACE_CHAR] @ s1" "[B ! c'] @ s2" "k + 1"] rc lt less.prems
      obtain r0 c0 al where al: "r0 = 0 \<or> c0 = 0" "r0 \<le> r" "c0 \<le> c'"
        "al \<in> globalAlignments (drop r0 (take r A)) (drop c0 (take c' B))"
        "calAlignment_loop U ?T (Some A) (Some B)
           \<lparr>currCell = Some (r, c'), i = size_dec r, j = size_dec c',
            seq1Add = [SPACE_CHAR] @ s1, seq2Add = [B ! c'] @ s2, idx = k + 1\<rparr>
         = Some \<lparr>currCell = None, i = size_dec r0, j = size_dec c0,
                 seq1Add = uninitSeq1Final U (k + 1 + length al) @ firstRow al @ [SPACE_CHAR] @ s1,
                 seq2Add = uninitSeq2Final U (k + 1 + length al) @ secondRow al @ [B ! c'] @ s2,
                 idx = k + 1 + length al + 1\<rparr>"
        by force
      have "al @ [?col] \<in> globalAlignments (drop r0 (take r A)) (drop c0 (take c B))"
        using globalAlignments_snocI [OF al(4), of ?col] al(2,3) lt
        by (simp add: rc drop_take_Suc)
      with al(1,2,3) show ?thesis
        unfolding step al(5)
        by (intro exI [of _ r0] exI [of _ c0] exI [of _ "al @ [?col]"])
           (simp add: rc firstRow_def secondRow_def)
    next
      case A
      let ?col = "(Some (A ! r'), None)"
      have step: "calAlignment_loop U ?T (Some A) (Some B) ?w
            = calAlignment_loop U ?T (Some A) (Some B)
                \<lparr>currCell = Some (r', c), i = size_dec r', j = size_dec c,
                 seq1Add = [A ! r'] @ s1, seq2Add = [SPACE_CHAR] @ s2, idx = k + 1\<rparr>"
        by (subst calAlignment_loop.simps)
           (simp add: calAlignment_body_def cell A analyzeSourceChar_def dec rd
              cstring_char nz strcat_def SPACE_CHAR_def)
      from less.hyps [of r' c "[A ! r'] @ s1" "[SPACE_CHAR] @ s2" "k + 1"] rc lt less.prems
      obtain r0 c0 al where al: "r0 = 0 \<or> c0 = 0" "r0 \<le> r'" "c0 \<le> c"
        "al \<in> globalAlignments (drop r0 (take r' A)) (drop c0 (take c B))"
        "calAlignment_loop U ?T (Some A) (Some B)
           \<lparr>currCell = Some (r', c), i = size_dec r', j = size_dec c,
            seq1Add = [A ! r'] @ s1, seq2Add = [SPACE_CHAR] @ s2, idx = k + 1\<rparr>
         = Some \<lparr>currCell = None, i = size_dec r0, j = size_dec c0,
                 seq1Add = uninitSeq1Final U (k + 1 + length al) @ firstRow al @ [A ! r'] @ s1,
                 seq2Add = uninitSeq2Final U (k + 1 + length al) @ secondRow al @ [SPACE_CHAR] @ s2,
                 idx = k + 1 + length al + 1\<rparr>"
        by force
      have "al @ [?col] \<in> globalAlignments (drop r0 (take r A)) (drop c0 (take c B))"
        using globalAlignments_snocI [OF al(4), of ?col] al(2,3) lt
        by (simp add: rc drop_take_Suc)
      with al(1,2,3) show ?thesis
        unfolding step al(5)
        by (intro exI [of _ r0] exI [of _ c0] exI [of _ "al @ [?col]"])
           (simp add: rc firstRow_def secondRow_def)
    qed
  qed
qed


lemma compareSequences_alignment:
  assumes "holds seq1 A" and "holds seq2 B"
    and "CHR 0x00 \<notin> set A" and "CHR 0x00 \<notin> set B"
  shows "\<exists>r0 c0 al.
           (r0 = 0 \<or> c0 = 0) \<and>
           al \<in> globalAlignments (drop r0 A) (drop c0 B) \<and>
           compareSequences U seq1 seq2 m s g =
             Some (tableScore A B m s g (length A) (length B),
                   uninitSeq1Final U (1 + length al) @ firstRow al @ ''\<newline>'' @
                   uninitSeq2Final U (1 + length al) @ secondRow al @ ''\<newline>'')"
proof -
  have len: "getSeqLen seq1 = length A" "getSeqLen seq2 = length B"
    and v: "getSeqVal seq1 = Some A" "getSeqVal seq2 = Some B"
    using assms by (simp_all add: holds_def)
  have dec: "size_dec (length A + 1) = length A" "size_dec (length B + 1) = length B"
    by (simp_all add: size_dec_def)
  from calAlignment_loop_alignment [OF order_refl order_refl assms(3,4), of U m s g "[]" "[]" 1]
  obtain r0 c0 al where al: "r0 = 0 \<or> c0 = 0"
    "al \<in> globalAlignments (drop r0 A) (drop c0 B)"
    and loop: "calAlignment_loop U (filledTable A B m s g) (Some A) (Some B)
       \<lparr>currCell = Some (length A, length B), i = size_dec (length A), j = size_dec (length B),
        seq1Add = [], seq2Add = [], idx = 1\<rparr>
       = Some \<lparr>currCell = None, i = size_dec r0, j = size_dec c0,
               seq1Add = uninitSeq1Final U (1 + length al) @ firstRow al @ [],
               seq2Add = uninitSeq2Final U (1 + length al) @ secondRow al @ [],
               idx = 1 + length al + 1\<rparr>"
    by auto
  have "calAlignment U seq1 seq2 (filledTable A B m s g) (length A + 1) (length B + 1)
        = Some (uninitSeq1Final U (1 + length al) @ firstRow al @ ''\<newline>'' @
                uninitSeq2Final U (1 + length al) @ secondRow al @ ''\<newline>'')"
    by (simp only: calAlignment_def len v dec loop Option.bind.bind_lunit)
       (simp add: createAlignment_def strcat_def)
  then have "compareSequences U seq1 seq2 m s g =
             Some (tableScore A B m s g (length A) (length B),
                   uninitSeq1Final U (1 + length al) @ firstRow al @ ''\<newline>'' @
                   uninitSeq2Final U (1 + length al) @ secondRow al @ ''\<newline>'')"
    by (simp only: compareSequences_def Let_def holds_size_add [OF assms(1)]
          holds_size_add [OF assms(2)] fillTable_filledTable [OF assms(1,2)] dec
          filledTable_cell [OF order_refl order_refl] Option.bind.bind_lunit
          getScore_tableCell)
  with al show ?thesis by blast
qed

lemma rows_same_length: "length (firstRow al) = length (secondRow al)"
  by (simp add: firstRow_def secondRow_def)

end
